theory Spec2Isabelle
  imports Main "HOL-Library.Sublist"
begin

section \<open>Python values\<close>

text \<open>
  The program of \<^verbatim>\<open>okta-soruce.py\<close> works on the values that \<^verbatim>\<open>resp.json()\<close> returns.
  They are dynamically typed, and the code tests their types (\<^verbatim>\<open>isinstance\<close>) and their
  truth values, so the model keeps them as a datatype. A dict is an association list that
  is read by its first matching key. JSON numbers are the integers; fractional numbers are
  outside the model. Strings are lists of 8-bit characters: the text of a header is
  Latin-1, any other text is taken as ASCII, and the case conversion of \<^verbatim>\<open>str.lower\<close> is
  the one of ASCII.
\<close>

datatype json =
    JNull
  | JBool bool
  | JNum int
  | JStr string
  | JList "json list"
  | JObj "(string \<times> json) list"

text \<open>Every \<^verbatim>\<open>raise\<close> of the source and every exception of a built-in is a value.\<close>

datatype py_error =
    AttributeError
  | TypeError
  | KeyError string
  | ValueError string
  | JSONDecodeError
  | RequestException string
  | PyException string

definition ebind :: "'e + 'a \<Rightarrow> ('a \<Rightarrow> 'e + 'b) \<Rightarrow> 'e + 'b" where
  "ebind m f = (case m of Inl e \<Rightarrow> Inl e | Inr x \<Rightarrow> f x)"

text \<open>Truth value of a Python object, as \<^verbatim>\<open>if x:\<close> and \<^verbatim>\<open>x or y\<close> test it.\<close>

fun truthy :: "json \<Rightarrow> bool" where
  "truthy JNull = False"
| "truthy (JBool b) = b"
| "truthy (JNum n) = (n \<noteq> 0)"
| "truthy (JStr s) = (s \<noteq> [])"
| "truthy (JList xs) = (xs \<noteq> [])"
| "truthy (JObj kv) = (kv \<noteq> [])"

definition py_or :: "json \<Rightarrow> json \<Rightarrow> json" where
  "py_or x y = (if truthy x then x else y)"

definition dict_get :: "(string \<times> json) list \<Rightarrow> string \<Rightarrow> json \<Rightarrow> json" where
  "dict_get kv k d = (case map_of kv k of None \<Rightarrow> d | Some v \<Rightarrow> v)"

text \<open>\<^verbatim>\<open>x.get(k, d)\<close>: only a dict has the method; \<^verbatim>\<open>x.get(k)\<close> is \<^verbatim>\<open>x.get(k, None)\<close>.\<close>

definition py_get :: "json \<Rightarrow> string \<Rightarrow> json \<Rightarrow> py_error + json" where
  "py_get x k d = (case x of JObj kv \<Rightarrow> Inr (dict_get kv k d) | _ \<Rightarrow> Inl AttributeError)"

text \<open>\<^verbatim>\<open>x[k]\<close> on a dict.\<close>

definition dict_item :: "(string \<times> json) list \<Rightarrow> string \<Rightarrow> py_error + json" where
  "dict_item kv k = (case map_of kv k of None \<Rightarrow> Inl (KeyError k) | Some v \<Rightarrow> Inr v)"

text \<open>
  Equality and hashing of the values a set can hold: \<^verbatim>\<open>True == 1\<close> and \<^verbatim>\<open>False == 0\<close>
  in Python, every other pair of scalars of different types is unequal. Lists and dicts
  are unhashable.
\<close>

fun py_key :: "json \<Rightarrow> json" where
  "py_key (JBool b) = JNum (if b then 1 else 0)"
| "py_key v = v"

fun hashable :: "json \<Rightarrow> bool" where
  "hashable (JList xs) = False"
| "hashable (JObj kv) = False"
| "hashable v = True"

text \<open>
  A Python set of hashable values, kept as the list of its elements in insertion order.
  \<^verbatim>\<open>x in s\<close> and \<^verbatim>\<open>s.add(x)\<close> raise TypeError on an unhashable \<open>x\<close>.
\<close>

definition set_member :: "json \<Rightarrow> json list \<Rightarrow> bool" where
  "set_member x s = (py_key x \<in> py_key ` set s)"

definition py_in_set :: "json \<Rightarrow> json list \<Rightarrow> py_error + bool" where
  "py_in_set x s = (if hashable x then Inr (set_member x s) else Inl TypeError)"

definition set_add :: "json list \<Rightarrow> json \<Rightarrow> py_error + json list" where
  "set_add s x =
     (if hashable x then Inr (if set_member x s then s else s @ [x]) else Inl TypeError)"

section \<open>Python strings\<close>

text \<open>\<^verbatim>\<open>sub in s\<close> on strings.\<close>

fun contains :: "string \<Rightarrow> string \<Rightarrow> bool" where
  "contains sub [] = (sub = [])"
| "contains sub (c # cs) = (prefix sub (c # cs) \<or> contains sub cs)"

text \<open>
  \<^verbatim>\<open>s.split(sep)\<close> for a non-empty separator (the program splits at \<^verbatim>\<open>"/users/"\<close> and
  at \<^verbatim>\<open>","\<close>): occurrences are taken from the left and do not overlap.
\<close>

fun py_split :: "string \<Rightarrow> string \<Rightarrow> string list" where
  "py_split sep [] = [[]]"
| "py_split sep (c # cs) =
     (if prefix sep (c # cs) then [] # py_split sep (drop (length sep - 1) cs)
      else (case py_split sep cs of [] \<Rightarrow> [[c]] | p # ps \<Rightarrow> (c # p) # ps))"

text \<open>\<^verbatim>\<open>s.find(c)\<close> for a one-character needle: the first index, or -1.\<close>

fun py_find :: "char \<Rightarrow> string \<Rightarrow> int" where
  "py_find c [] = - 1"
| "py_find c (x # xs) =
     (if x = c then 0 else (let i = py_find c xs in if i < 0 then - 1 else i + 1))"

text \<open>\<^verbatim>\<open>s[a:b]\<close>: a negative index counts from the end, and both are clipped to the string.\<close>

definition py_slice :: "string \<Rightarrow> int \<Rightarrow> int \<Rightarrow> string" where
  "py_slice s a b =
     (let n = int (length s);
          a' = (if a < 0 then max (a + n) 0 else min a n);
          b' = (if b < 0 then max (b + n) 0 else min b n)
      in take (nat (b' - a')) (drop (nat a') s))"

definition lower_char :: "char \<Rightarrow> char" where
  "lower_char c =
     (case map_of (zip ''ABCDEFGHIJKLMNOPQRSTUVWXYZ'' ''abcdefghijklmnopqrstuvwxyz'') c of
        Some d \<Rightarrow> d
      | None \<Rightarrow> c)"

definition lower :: "string \<Rightarrow> string" where
  "lower s = map lower_char s"

text \<open>
  \<^verbatim>\<open>s.isdigit()\<close> is false on the empty string. Among the characters of a header, which
  are the 256 of Latin-1, it accepts the ten digits and the superscripts two, three and one.
\<close>

definition is_digit_char :: "char \<Rightarrow> bool" where
  "is_digit_char c = (c \<in> set (''0123456789'' @ [CHR 0xB2, CHR 0xB3, CHR 0xB9]))"

definition isdigit :: "string \<Rightarrow> bool" where
  "isdigit s = (s \<noteq> [] \<and> list_all is_digit_char s)"

definition digit_val :: "char \<Rightarrow> nat" where
  "digit_val c =
     (case map_of (zip ''0123456789'' [0, 1, 2, 3, 4, 5, 6, 7, 8, 9]) c of
        Some d \<Rightarrow> d
      | None \<Rightarrow> 0)"

definition digit_char :: "nat \<Rightarrow> char" where
  "digit_char d = ''0123456789ABCDEF'' ! d"

text \<open>
  \<^verbatim>\<open>int(s)\<close> on a string that \<^verbatim>\<open>isdigit\<close> accepts: the value of a string of the ten digits,
  and a ValueError on a superscript (its message, which quotes the string, is cut short).
\<close>

definition py_int :: "string \<Rightarrow> py_error + int" where
  "py_int s =
     (if s \<noteq> [] \<and> list_all (\<lambda>c. c \<in> set ''0123456789'') s
      then Inr (int (foldl (\<lambda>a c. 10 * a + digit_val c) 0 s))
      else Inl (ValueError ''invalid literal for int() with base 10''))"

text \<open>Decimal rendering of an integer, as an f-string prints it.\<close>

fun show_nat :: "nat \<Rightarrow> string" where
  "show_nat n =
     (if n < 10 then [digit_char n]
      else show_nat (n div 10) @ [digit_char (n mod 10)])"

declare show_nat.simps [simp del]

definition show_int :: "int \<Rightarrow> string" where
  "show_int i = (if i < 0 then CHR ''-'' # show_nat (nat (- i)) else show_nat (nat i))"

text \<open>
  \<^verbatim>\<open>str(v)\<close>, as an f-string formats a value. The text of a list or a dict is Python's
  \<^verbatim>\<open>repr\<close>, which is taken as the parameter \<open>repr\<close>.
\<close>

fun py_str :: "(json \<Rightarrow> string) \<Rightarrow> json \<Rightarrow> string" where
  "py_str repr (JStr s) = s"
| "py_str repr JNull = ''None''"
| "py_str repr (JBool b) = (if b then ''True'' else ''False'')"
| "py_str repr (JNum n) = show_int n"
| "py_str repr v = repr v"

text \<open>\<^verbatim>\<open>urllib.parse.quote(s)\<close>: letters, digits and \<^verbatim>\<open>_.-~/\<close> stay, any other byte is \<^verbatim>\<open>%XX\<close>.\<close>

definition quote_safe :: "char \<Rightarrow> bool" where
  "quote_safe c =
     (c \<in> set ''ABCDEFGHIJKLMNOPQRSTUVWXYZabcdefghijklmnopqrstuvwxyz0123456789_.-~/'')"

definition quote_char :: "char \<Rightarrow> string" where
  "quote_char c =
     (if quote_safe c then [c]
      else [CHR ''%'', digit_char (of_char c div 16), digit_char (of_char c mod 16)])"

definition quote :: "string \<Rightarrow> string" where
  "quote s = concat (map quote_char s)"

section \<open>Cross-reference collector: one membership item\<close>

text \<open>
  Lines 137 to 142 of \<^verbatim>\<open>collect_bob_user_ids\<close>: \<^verbatim>\<open>user_link\<close> read from \<^verbatim>\<open>_links.user\<close>,
  which is a dict or a non-empty list whose first element is taken.
\<close>

definition user_link_of :: "json \<Rightarrow> py_error + json" where
  "user_link_of item =
     ebind (py_get item ''_links'' (JObj [])) (\<lambda>links.
     ebind (py_get links ''user'' JNull) (\<lambda>u.
       case u of
         JObj ukv \<Rightarrow> Inr (dict_get ukv ''href'' JNull)
       | JList (x # xs) \<Rightarrow> py_get x ''href'' JNull
       | _ \<Rightarrow> Inr JNull))"

text \<open>\<^verbatim>\<open>"/users/" in user_link\<close>, for whatever \<^verbatim>\<open>user_link\<close> is.\<close>

definition contains_users :: "json \<Rightarrow> py_error + bool" where
  "contains_users v =
     (case v of
        JStr s \<Rightarrow> Inr (contains ''/users/'' s)
      | JList xs \<Rightarrow> Inr (JStr ''/users/'' \<in> set xs)
      | JObj kv \<Rightarrow> Inr (''/users/'' \<in> fst ` set kv)
      | _ \<Rightarrow> Inl TypeError)"

text \<open>\<^verbatim>\<open>user_link.split("/users/")[-1]\<close>: only a string has \<^verbatim>\<open>split\<close>.\<close>

definition after_users :: "json \<Rightarrow> py_error + json" where
  "after_users v =
     (case v of JStr s \<Rightarrow> Inr (JStr (last (py_split ''/users/'' s))) | _ \<Rightarrow> Inl AttributeError)"

text \<open>First strategy (lines 134 to 145): the value of \<^verbatim>\<open>user_id\<close> after the link parse.\<close>

definition link_user_id :: "json \<Rightarrow> py_error + json" where
  "link_user_id item =
     ebind (user_link_of item) (\<lambda>user_link.
       if truthy user_link then
         ebind (contains_users user_link) (\<lambda>b. if b then after_users user_link else Inr JNull)
       else Inr JNull)"

text \<open>Second strategy (lines 149 to 151): the id of the embedded user.\<close>

definition embedded_user_id :: "json \<Rightarrow> py_error + json" where
  "embedded_user_id item =
     ebind (py_get item ''_embedded'' (JObj [])) (\<lambda>embedded.
     ebind (py_get embedded ''user'' JNull) (\<lambda>eu.
       py_get (py_or eu (JObj [])) ''id'' JNull))"

text \<open>
  Third strategy (lines 154 to 156): the item's own id when it is a string that starts
  with \<^verbatim>\<open>00u\<close>; otherwise \<^verbatim>\<open>user_id\<close> keeps the value \<open>cur\<close> it had.
\<close>

definition self_user_id :: "json \<Rightarrow> json \<Rightarrow> py_error + json" where
  "self_user_id item cur =
     ebind (py_get item ''id'' JNull) (\<lambda>maybe.
       case maybe of
         JStr s \<Rightarrow> Inr (if prefix ''00u'' s then JStr s else cur)
       | _ \<Rightarrow> Inr cur)"

text \<open>Lines 134 to 156: the three strategies in the order of the source.\<close>

definition resolve_user_id :: "json \<Rightarrow> py_error + json" where
  "resolve_user_id item =
     ebind (link_user_id item) (\<lambda>id1.
     ebind (if \<not> truthy id1 then embedded_user_id item else Inr id1) (\<lambda>id2.
       if \<not> truthy id2 then self_user_id item id2 else Inr id2))"

text \<open>The body of the loop over the items of a page, lines 133 to 159.\<close>

definition add_item :: "json list \<Rightarrow> json \<Rightarrow> py_error + json list" where
  "add_item user_ids item =
     ebind (resolve_user_id item) (\<lambda>user_id.
       if truthy user_id then set_add user_ids user_id else Inr user_ids)"

fun add_items :: "json list \<Rightarrow> json list \<Rightarrow> py_error + json list" where
  "add_items user_ids [] = Inr user_ids"
| "add_items user_ids (item # items) =
     ebind (add_item user_ids item) (\<lambda>user_ids'. add_items user_ids' items)"

text \<open>
  \<^verbatim>\<open>for item in items\<close> where \<^verbatim>\<open>items\<close> is the body of a page: a list gives its elements, a
  dict its keys, a string its characters; nothing else can be iterated.
\<close>

definition py_iter :: "json \<Rightarrow> py_error + json list" where
  "py_iter v =
     (case v of
        JList xs \<Rightarrow> Inr xs
      | JObj kv \<Rightarrow> Inr (map (\<lambda>(k, _). JStr k) kv)
      | JStr s \<Rightarrow> Inr (map (\<lambda>c. JStr [c]) s)
      | _ \<Rightarrow> Inl TypeError)"

section \<open>Reconciler: the row of one user\<close>

record row =
  user_id :: json
  first_name :: json
  last_name :: json
  email :: json
  origin :: string
  okta_configuration_status :: json

text \<open>Lines 196 to 201: the status that the provider reports.\<close>

definition provider_status :: "(json \<Rightarrow> string) \<Rightarrow> json \<Rightarrow> json \<Rightarrow> json" where
  "provider_status repr provider_type provider_name =
     (if provider_type = JStr ''OKTA'' then JStr ''Manual (OKTA)''
      else if provider_type = JStr ''FEDERATION'' \<or> provider_type = JStr ''IMPORT''
        then JStr (''Provisioned ('' @ py_str repr provider_name @ '')'')
      else provider_name)"

text \<open>The body of the loop over the users, lines 189 to 219.\<close>

definition transform_user :: "(json \<Rightarrow> string) \<Rightarrow> json list \<Rightarrow> json \<Rightarrow> py_error + row" where
  "transform_user repr bob_user_ids user =
     ebind (py_get user ''id'' JNull) (\<lambda>uid.
     ebind (py_get user ''profile'' (JObj [])) (\<lambda>p.
     ebind (py_get user ''credentials'' (JObj [])) (\<lambda>c.
     ebind (py_get (py_or c (JObj [])) ''provider'' (JObj [])) (\<lambda>pr.
     let profile = py_or p (JObj []); creds = py_or pr (JObj []) in
     ebind (py_get creds ''type'' (JStr ''UNKNOWN'')) (\<lambda>provider_type.
     ebind (py_get creds ''name'' (JStr ''UNKNOWN'')) (\<lambda>provider_name.
     ebind (py_in_set uid bob_user_ids) (\<lambda>imported.
     ebind (py_get profile ''firstName'' (JStr [])) (\<lambda>fn.
     ebind (py_get profile ''lastName'' (JStr [])) (\<lambda>ln.
     ebind (py_get profile ''email'' (JStr [])) (\<lambda>em.
       Inr \<lparr> user_id = uid, first_name = fn, last_name = ln, email = em,
             origin = (if imported then ''Imported (bob)'' else ''Manual (OKTA)''),
             okta_configuration_status =
               (if imported then JStr ''Imported (bob)''
                else provider_status repr provider_type provider_name) \<rparr>))))))))))"

fun transform_rows :: "(json \<Rightarrow> string) \<Rightarrow> json list \<Rightarrow> json list \<Rightarrow> row list \<Rightarrow> py_error + row list" where
  "transform_rows repr bob_user_ids [] rows = Inr rows"
| "transform_rows repr bob_user_ids (user # users) rows =
     ebind (transform_user repr bob_user_ids user) (\<lambda>r.
       transform_rows repr bob_user_ids users (rows @ [r]))"

section \<open>App resolver: the choice among the applications found\<close>

text \<open>\<^verbatim>\<open>app.get("label", "").lower()\<close>: only a string has \<^verbatim>\<open>lower\<close>.\<close>

definition app_label_lower :: "json \<Rightarrow> py_error + string" where
  "app_label_lower app =
     ebind (py_get app ''label'' (JStr [])) (\<lambda>l.
       case l of JStr s \<Rightarrow> Inr (lower s) | _ \<Rightarrow> Inl AttributeError)"

text \<open>\<^verbatim>\<open>app["id"]\<close>, reached only when \<^verbatim>\<open>app.get\<close> has succeeded.\<close>

definition app_id :: "json \<Rightarrow> py_error + json" where
  "app_id app = (case app of JObj kv \<Rightarrow> dict_item kv ''id'' | _ \<Rightarrow> Inl TypeError)"

text \<open>
  The two loops of lines 99 to 106. \<open>Some i\<close> is \<^verbatim>\<open>return i\<close>, \<open>None\<close> is the end of
  the loop.
\<close>

fun exact_match :: "string \<Rightarrow> json list \<Rightarrow> py_error + json option" where
  "exact_match label [] = Inr None"
| "exact_match label (app # apps) =
     ebind (app_label_lower app) (\<lambda>l.
       if l = lower label then ebind (app_id app) (\<lambda>i. Inr (Some i))
       else exact_match label apps)"

fun bob_match :: "json list \<Rightarrow> py_error + json option" where
  "bob_match [] = Inr None"
| "bob_match (app # apps) =
     ebind (app_label_lower app) (\<lambda>l.
       if contains ''bob'' l then ebind (app_id app) (\<lambda>i. Inr (Some i))
       else bob_match apps)"

definition not_found_message :: "string \<Rightarrow> string" where
  "not_found_message label =
     ''Could not find a bob app by label '' @ [CHR 0x27] @ label @ [CHR 0x27] @ ''. ''
     @ ''Set BOB_APP_ID to the exact application ID.''"

text \<open>Lines 98 to 111, on the list that the search has returned.\<close>

definition select_app :: "string \<Rightarrow> json list \<Rightarrow> py_error + json" where
  "select_app label apps =
     ebind (exact_match label apps) (\<lambda>r1.
       case r1 of
         Some i \<Rightarrow> Inr i
       | None \<Rightarrow>
           ebind (bob_match apps) (\<lambda>r2.
             case r2 of
               Some i \<Rightarrow> Inr i
             | None \<Rightarrow> Inl (ValueError (not_found_message label))))"

section \<open>The HTTP client and the world it runs in\<close>

text \<open>
  A response as the program reads it: \<^verbatim>\<open>status_code\<close>, \<^verbatim>\<open>headers\<close>, \<^verbatim>\<open>text\<close> and the result
  of \<^verbatim>\<open>json()\<close>, which is \<open>None\<close> when the body is not JSON and the call raises.
\<close>

record response =
  status_code :: int
  headers :: "(string \<times> string) list"
  resp_text :: string
  json_body :: "json option"

text \<open>\<^verbatim>\<open>resp.headers.get(k)\<close>: the header names of \<^verbatim>\<open>requests\<close> are compared without case.\<close>

definition header_get :: "(string \<times> string) list \<Rightarrow> string \<Rightarrow> string option" where
  "header_get hs k = map_of (map (\<lambda>(n, v). (lower n, v)) hs) (lower k)"

definition str_truthy :: "string option \<Rightarrow> bool" where
  "str_truthy v = (case v of None \<Rightarrow> False | Some s \<Rightarrow> s \<noteq> [])"

text \<open>
  The world: the responses the backend will give (\<open>server w n url\<close> answers the \<open>n\<close>-th
  coming request when it asks for \<open>url\<close>; a transport failure is an exception), the coming
  readings of \<^verbatim>\<open>int(time.time())\<close>, the durations passed to \<^verbatim>\<open>time.sleep\<close>, the requests
  answered so far, the report file and the lines printed.
\<close>

record world =
  server :: "nat \<Rightarrow> string \<Rightarrow> py_error + response"
  clock :: "nat \<Rightarrow> int"
  slept :: "int list"
  history :: "(string \<times> response) list"
  report :: "row list option"
  stdout :: "string list"

text \<open>\<^verbatim>\<open>SESSION.get(url, timeout=TIMEOUT)\<close>.\<close>

definition session_get :: "string \<Rightarrow> world \<Rightarrow> (py_error + response) \<times> world" where
  "session_get url w =
     (let w1 = w\<lparr>server := (\<lambda>n. server w (Suc n))\<rparr> in
      case server w 0 url of
        Inl e \<Rightarrow> (Inl e, w1)
      | Inr resp \<Rightarrow> (Inr resp, w1\<lparr>history := history w @ [(url, resp)]\<rparr>))"

text \<open>
  \<^verbatim>\<open>_sleep_for_rate_limit\<close>, lines 36 to 47. \<^verbatim>\<open>int(reset)\<close> is evaluated before the clock is
  read, so a ValueError leaves the clock unread.
\<close>

definition sleep_for_rate_limit :: "response \<Rightarrow> world \<Rightarrow> (py_error + bool) \<times> world" where
  "sleep_for_rate_limit resp w =
     (if status_code resp \<noteq> 429 then (Inr False, w)
      else
        case header_get (headers resp) ''x-rate-limit-reset'' of
          None \<Rightarrow> (Inr True, w\<lparr>slept := slept w @ [2]\<rparr>)
        | Some reset \<Rightarrow>
            if reset \<noteq> [] \<and> isdigit reset then
              (case py_int reset of
                 Inl e \<Rightarrow> (Inl e, w)
               | Inr t \<Rightarrow>
                   (Inr True,
                    w\<lparr>clock := (\<lambda>n. clock w (Suc n)),
                      slept := slept w @ [max (t - clock w 0 + 1) 2]\<rparr>))
            else (Inr True, w\<lparr>slept := slept w @ [2]\<rparr>))"

text \<open>
  \<^verbatim>\<open>_get\<close>: the loop has no bound, so the function is partial; \<open>None\<close> is a run that
  never returns.
\<close>

partial_function (option) get :: "string \<Rightarrow> world \<Rightarrow> ((py_error + response) \<times> world) option" where
  "get url w =
     (case session_get url w of
        (Inl e, w1) \<Rightarrow> Some (Inl e, w1)
      | (Inr resp, w1) \<Rightarrow>
          if status_code resp = 429 then
            (case sleep_for_rate_limit resp w1 of
               (Inl e, w2) \<Rightarrow> Some (Inl e, w2)
             | (Inr retry, w2) \<Rightarrow> if retry then get url w2 else Some (Inr resp, w2))
          else Some (Inr resp, w1))"

section \<open>Pagination\<close>

definition rel_next :: string where
  "rel_next = ''rel='' @ [CHR 0x22] @ ''next'' @ [CHR 0x22]"

text \<open>Lines 76 to 79: the first part of the link header that holds the marker.\<close>

fun find_next :: "string list \<Rightarrow> string option" where
  "find_next [] = None"
| "find_next (part # parts) =
     (if contains rel_next part
      then Some (py_slice part (py_find CHR ''<'' part + 1) (py_find CHR ''>'' part))
      else find_next parts)"

text \<open>Lines 73 to 79, and 162 to 168: \<^verbatim>\<open>next_url\<close>.\<close>

definition next_url :: "response \<Rightarrow> string option" where
  "next_url resp =
     (let l1 = header_get (headers resp) ''link'';
          link = (if str_truthy l1 then l1 else header_get (headers resp) ''Link'')
      in case link of
           None \<Rightarrow> None
         | Some l \<Rightarrow> if l \<noteq> [] then find_next (py_split '','' l) else None)"

definition api_error_message :: "string \<Rightarrow> response \<Rightarrow> string" where
  "api_error_message url resp =
     ''GET '' @ url @ '' -> '' @ show_int (status_code resp) @ '' '' @ resp_text resp"

text \<open>Lines 68 to 71: what a page adds to \<^verbatim>\<open>items\<close>.\<close>

definition page_items :: "json \<Rightarrow> json list" where
  "page_items data = (case data of JList xs \<Rightarrow> xs | _ \<Rightarrow> [data])"

text \<open>
  \<^verbatim>\<open>_get_paginated\<close>, the loop of lines 63 to 80 with its variables \<^verbatim>\<open>url\<close> and \<^verbatim>\<open>items\<close>.
  The loop ends when \<^verbatim>\<open>url\<close> is \<^verbatim>\<open>None\<close> or the empty string.
\<close>

partial_function (option) get_paginated_loop ::
  "string option \<Rightarrow> json list \<Rightarrow> world \<Rightarrow> ((py_error + json list) \<times> world) option" where
  "get_paginated_loop url items w =
     (if \<not> str_truthy url then Some (Inr items, w)
      else
        Option.bind (get (the url) w) (\<lambda>(r, w1).
          case r of
            Inl e \<Rightarrow> Some (Inl e, w1)
          | Inr resp \<Rightarrow>
              if status_code resp \<noteq> 200
              then Some (Inl (PyException (api_error_message (the url) resp)), w1)
              else
                (case json_body resp of
                   None \<Rightarrow> Some (Inl JSONDecodeError, w1)
                 | Some data \<Rightarrow>
                     get_paginated_loop (next_url resp) (items @ page_items data) w1)))"

definition get_paginated :: "string \<Rightarrow> world \<Rightarrow> ((py_error + json list) \<times> world) option" where
  "get_paginated url w = get_paginated_loop (Some url) [] w"

text \<open>
  \<^verbatim>\<open>collect_bob_user_ids\<close>, the loop of lines 127 to 169 with its variables \<^verbatim>\<open>url\<close> and
  \<^verbatim>\<open>user_ids\<close>.
\<close>

partial_function (option) collect_loop ::
  "string option \<Rightarrow> json list \<Rightarrow> world \<Rightarrow> ((py_error + json list) \<times> world) option" where
  "collect_loop url user_ids w =
     (if \<not> str_truthy url then Some (Inr user_ids, w)
      else
        Option.bind (get (the url) w) (\<lambda>(r, w1).
          case r of
            Inl e \<Rightarrow> Some (Inl e, w1)
          | Inr resp \<Rightarrow>
              if status_code resp \<noteq> 200
              then Some (Inl (PyException (api_error_message (the url) resp)), w1)
              else
                (case json_body resp of
                   None \<Rightarrow> Some (Inl JSONDecodeError, w1)
                 | Some data \<Rightarrow>
                     (case ebind (py_iter data) (add_items user_ids) of
                        Inl e \<Rightarrow> Some (Inl e, w1)
                      | Inr user_ids' \<Rightarrow> collect_loop (next_url resp) user_ids' w1))))"

section \<open>The program\<close>

text \<open>
  The settings after the set-up of lines 11 to 22: the domain with its scheme, and the two
  optional settings that identify the application.
\<close>

record config =
  OKTA_DOMAIN :: string
  BOB_APP_ID :: "string option"
  BOB_APP_LABEL :: "string option"

definition collect_bob_user_ids ::
  "(json \<Rightarrow> string) \<Rightarrow> config \<Rightarrow> json \<Rightarrow> world \<Rightarrow> ((py_error + json list) \<times> world) option" where
  "collect_bob_user_ids repr cfg bob_app_id w =
     collect_loop
       (Some (OKTA_DOMAIN cfg @ ''/api/v1/apps/'' @ py_str repr bob_app_id @ ''/users?limit=200''))
       [] w"

definition collect_okta_users :: "config \<Rightarrow> world \<Rightarrow> ((py_error + json list) \<times> world) option" where
  "collect_okta_users cfg w = get_paginated (OKTA_DOMAIN cfg @ ''/api/v1/users?limit=200'') w"

definition missing_app_message :: string where
  "missing_app_message =
     ''Set BOB_APP_ID or BOB_APP_LABEL in your .env to identify the '' @ [CHR 0x27] @ ''bob''
     @ [CHR 0x27] @ '' app''"

definition resolve_bob_app_id :: "config \<Rightarrow> world \<Rightarrow> ((py_error + json) \<times> world) option" where
  "resolve_bob_app_id cfg w =
     (if str_truthy (BOB_APP_ID cfg) then Some (Inr (JStr (the (BOB_APP_ID cfg))), w)
      else if \<not> str_truthy (BOB_APP_LABEL cfg) then Some (Inl (ValueError missing_app_message), w)
      else
        let label = the (BOB_APP_LABEL cfg) in
        Option.bind
          (get_paginated (OKTA_DOMAIN cfg @ ''/api/v1/apps?q='' @ quote label @ ''&limit=200'') w)
          (\<lambda>(r, w1). Some (ebind r (select_app label), w1)))"

text \<open>Lines 221 to 231: the report is written, then three lines are printed.\<close>

definition export :: "json \<Rightarrow> (json \<Rightarrow> string) \<Rightarrow> row list \<Rightarrow> world \<Rightarrow> world" where
  "export bob_app_id repr rows w =
     w\<lparr>report := Some rows,
       stdout := stdout w @
         [[CHR 0xE2, CHR 0x9C, CHR 0x85]
            @ '' Report generated successfully: okta_user_source_report.xlsx'',
          ''Total users processed: '' @ show_nat (length rows),
          ''bob app id used: '' @ py_str repr bob_app_id]\<rparr>"

text \<open>
  Lines 178 to 231. The result is the list of rows on success, or the exception that ends
  the run.
\<close>

definition main :: "(json \<Rightarrow> string) \<Rightarrow> config \<Rightarrow> world \<Rightarrow> ((py_error + row list) \<times> world) option" where
  "main repr cfg w =
     Option.bind (resolve_bob_app_id cfg w) (\<lambda>(r1, w1).
       case r1 of
         Inl e \<Rightarrow> Some (Inl e, w1)
       | Inr bob_app_id \<Rightarrow>
           Option.bind (collect_okta_users cfg w1) (\<lambda>(r2, w2).
             case r2 of
               Inl e \<Rightarrow> Some (Inl e, w2)
             | Inr users \<Rightarrow>
                 Option.bind (collect_bob_user_ids repr cfg bob_app_id w2) (\<lambda>(r3, w3).
                   case r3 of
                     Inl e \<Rightarrow> Some (Inl e, w3)
                   | Inr bob_user_ids \<Rightarrow>
                       (case transform_rows repr bob_user_ids users [] of
                          Inl e \<Rightarrow> Some (Inl e, w3)
                        | Inr rows \<Rightarrow> Some (Inr rows, export bob_app_id repr rows w3)))))"

declare get.simps [code] get_paginated_loop.simps [code] collect_loop.simps [code]

definition user_identifier :: "json \<Rightarrow> json" where
  "user_identifier user = (case user of JObj kv \<Rightarrow> dict_get kv ''id'' JNull | _ \<Rightarrow> JNull)"

fun field_path :: "string list \<Rightarrow> json \<Rightarrow> json option" where
  "field_path [] v = Some v"
| "field_path (k # ks) v =
     (case v of
        JObj kv \<Rightarrow>
          (case map_of kv k of
             None \<Rightarrow> None
           | Some x \<Rightarrow> if ks = [] then Some x else if truthy x then field_path ks x else None)
      | _ \<Rightarrow> None)"

definition spec_provider_field :: "string \<Rightarrow> json \<Rightarrow> json" where
  "spec_provider_field k user =
     (case field_path [''credentials'', ''provider'', k] user of
        None \<Rightarrow> JStr ''UNKNOWN''
      | Some v \<Rightarrow> v)"

definition spec_provider_status :: "(json \<Rightarrow> string) \<Rightarrow> json \<Rightarrow> json" where
  "spec_provider_status repr user =
     (let t = spec_provider_field ''type'' user; n = spec_provider_field ''name'' user in
      if t = JStr ''OKTA'' then JStr ''Manual (OKTA)''
      else if t = JStr ''FEDERATION'' \<or> t = JStr ''IMPORT''
        then JStr (''Provisioned ('' @ py_str repr n @ '')'')
      else n)"

definition spec_configuration_status :: "(json \<Rightarrow> string) \<Rightarrow> json list \<Rightarrow> json \<Rightarrow> json" where
  "spec_configuration_status repr ids user =
     (if set_member (user_identifier user) ids then JStr ''Imported (bob)''
      else spec_provider_status repr user)"

definition ok_response :: "json \<Rightarrow> string option \<Rightarrow> response" where
  "ok_response data link =
     \<lparr>status_code = 200, headers = (case link of None \<Rightarrow> [] | Some l \<Rightarrow> [(''link'', l)]),
      resp_text = [], json_body = Some data\<rparr>"

definition scripted_world :: "(py_error + response) list \<Rightarrow> world" where
  "scripted_world rs =
     \<lparr>server = (\<lambda>n url. if n < length rs then rs ! n else Inl (RequestException ''connection refused'')),
      clock = (\<lambda>n. 1000), slept = [], history = [], report = None, stdout = []\<rparr>"

definition demo_users :: "json list" where
  "demo_users =
     [JObj [(''id'', JStr ''00u123''),
            (''credentials'', JObj [(''provider'', JObj [(''type'', JStr ''OKTA''), (''name'', JStr ''OKTA'')])])],
      JObj [(''id'', JStr ''00u456''),
            (''profile'', JObj [(''firstName'', JStr ''Ada'')]),
            (''credentials'', JObj [(''provider'', JObj [(''type'', JStr ''FEDERATION''), (''name'', JStr ''AD'')])])],
      JObj [(''profile'', JObj [(''email'', JStr ''x@y.z'')])]]"

definition demo_links :: "json list" where
  "demo_links = [JObj [(''_links'', JObj [(''user'', JObj [(''href'', JStr ''https://d/api/v1/users/00u456'')])])]]"

definition demo_world :: world where
  "demo_world = scripted_world [Inr (ok_response (JList demo_users) None), Inr (ok_response (JList demo_links) None)]"

definition demo_config :: config where
  "demo_config = \<lparr>OKTA_DOMAIN = ''https://d'', BOB_APP_ID = Some ''0oa1'', BOB_APP_LABEL = None\<rparr>"

definition demo_rows :: "row list" where
  "demo_rows =
     [\<lparr>user_id = JStr ''00u123'', first_name = JStr [], last_name = JStr [], email = JStr [],
       origin = ''Manual (OKTA)'', okta_configuration_status = JStr ''Manual (OKTA)''\<rparr>,
      \<lparr>user_id = JStr ''00u456'', first_name = JStr ''Ada'', last_name = JStr [], email = JStr [],
       origin = ''Imported (bob)'', okta_configuration_status = JStr ''Imported (bob)''\<rparr>,
      \<lparr>user_id = JNull, first_name = JStr [], last_name = JStr [], email = JStr ''x@y.z'',
       origin = ''Manual (OKTA)'', okta_configuration_status = JStr ''UNKNOWN''\<rparr>]"

definition no_repr :: "json \<Rightarrow> string" where
  "no_repr v = []"


definition embedded_field :: "json \<Rightarrow> string \<times> json" where
  "embedded_field v = (''_embedded'', JObj [(''user'', JObj [(''id'', v)])])"

text \<open>
  What a call of \<open>get\<close> leaves behind: the responses it received are rate-limit
  responses, but for the last one when it returns a response; it writes no report and
  prints nothing.
\<close>

definition get_post :: "string \<Rightarrow> world \<Rightarrow> (py_error + response) \<times> world \<Rightarrow> bool" where
  "get_post url w y =
     (\<exists>h. history (snd y) = history w @ h \<and> report (snd y) = report w \<and> stdout (snd y) = stdout w
        \<and> (case fst y of
              Inl e \<Rightarrow> list_all (\<lambda>p. status_code (snd p) = 429) h
            | Inr resp \<Rightarrow>
                status_code resp \<noteq> 429
                \<and> (\<exists>h0. h = h0 @ [(url, resp)] \<and> list_all (\<lambda>p. status_code (snd p) = 429) h0)))"


definition rate_limited :: "(string \<times> string) list \<Rightarrow> response" where
  "rate_limited hs =
     \<lparr>status_code = 429, headers = hs, resp_text = ''Too Many Requests'', json_body = None\<rparr>"


text \<open>
  The selection policy in the words of the specification. An application is a dict whose
  label, when it has one, is a string.
\<close>

definition application :: "json \<Rightarrow> bool" where
  "application app =
     (case app of
        JObj kv \<Rightarrow> (case dict_get kv ''label'' (JStr []) of JStr s \<Rightarrow> True | _ \<Rightarrow> False)
      | _ \<Rightarrow> False)"



definition apps_url :: "config \<Rightarrow> string \<Rightarrow> string" where
  "apps_url cfg label = OKTA_DOMAIN cfg @ ''/api/v1/apps?q='' @ quote label @ ''&limit=200''"




text \<open>
  The part that the two pagination loops of the source share, lines 64 to 67 and 128 to
  132: one page is requested, and the run ends on a status other than 200 and on a body
  that is not JSON.
\<close>

definition fetch_page :: "string \<Rightarrow> world \<Rightarrow> ((py_error + response \<times> json) \<times> world) option" where
  "fetch_page u w =
     Option.bind (get u w) (\<lambda>(r, w1).
       case r of
         Inl e \<Rightarrow> Some (Inl e, w1)
       | Inr resp \<Rightarrow>
           if status_code resp \<noteq> 200
           then Some (Inl (PyException (api_error_message u resp)), w1)
           else
             (case json_body resp of
                None \<Rightarrow> Some (Inl JSONDecodeError, w1)
              | Some data \<Rightarrow> Some (Inr (resp, data), w1)))"

text \<open>
  What a part of the run leaves behind when it ends with the exception \<open>err\<close> (or with
  none): it has received the responses \<open>h\<close>, has written no report and printed nothing,
  and each response received has the status 200 or 429 unless \<open>err\<close> is the exception
  that lines 66 and 130 raise for it.
\<close>

definition result_error :: "'e + 'a \<Rightarrow> 'e option" where
  "result_error r = (case r of Inl e \<Rightarrow> Some e | Inr x \<Rightarrow> None)"

definition blames :: "(string \<times> response) list \<Rightarrow> py_error option \<Rightarrow> bool" where
  "blames h err =
     list_all (\<lambda>p. status_code (snd p) = 200 \<or> status_code (snd p) = 429
                 \<or> err = Some (PyException (api_error_message (fst p) (snd p)))) h"

definition run_post :: "world \<Rightarrow> py_error option \<Rightarrow> world \<Rightarrow> bool" where
  "run_post w err w' =
     (\<exists>h. history w' = history w @ h \<and> report w' = report w \<and> stdout w' = stdout w
        \<and> blames h err)"



text \<open>
  The pages of a paginated fetch that ends well: \<open>fetched_pages url w pages w'\<close> holds when
  the loop, started with \<open>url\<close> in the world \<open>w\<close>, receives the responses \<open>pages\<close> with
  their bodies, one after the other, each asked for at the URL that the one before gave,
  and stops in the world \<open>w'\<close>.
\<close>

inductive fetched_pages :: "string option \<Rightarrow> world \<Rightarrow> (response \<times> json) list \<Rightarrow> world \<Rightarrow> bool" where
  no_more: "\<not> str_truthy url \<Longrightarrow> fetched_pages url w [] w"
| next_page:
    "str_truthy url \<Longrightarrow> get (the url) w = Some (Inr resp, w1) \<Longrightarrow> status_code resp = 200 \<Longrightarrow>
     json_body resp = Some data \<Longrightarrow> fetched_pages (next_url resp) w1 pages w' \<Longrightarrow>
     fetched_pages url w ((resp, data) # pages) w'"

text \<open>
  The link header as the loop reads it, its first part marked with the relation, and the
  text that the slice of line 78 takes from a part.
\<close>

definition link_header :: "response \<Rightarrow> string option" where
  "link_header resp =
     (let l1 = header_get (headers resp) ''link'' in
      if str_truthy l1 then l1 else header_get (headers resp) ''Link'')"

definition next_part :: "string \<Rightarrow> string option" where
  "next_part l = find (contains rel_next) (py_split '','' l)"

definition bracketed :: "string \<Rightarrow> string" where
  "bracketed part = py_slice part (py_find CHR ''<'' part + 1) (py_find CHR ''>'' part)"

definition next_link :: "string \<Rightarrow> string" where
  "next_link url = CHR ''<'' # url @ ''>; '' @ rel_next"

definition paged_world :: world where
  "paged_world =
     scripted_world
       [Inr (rate_limited []),
        Inr (ok_response (JList [JNum 1, JNum 2]) (Some (next_link ''https://d/p2''))),
        Inr (ok_response (JObj [(''a'', JNum 3)]) None)]"

definition empty_next_world :: world where
  "empty_next_world =
     scripted_world
       [Inr (ok_response (JList [JNum 1]) (Some (next_link []))),
        Inr (ok_response (JList [JNum 2]) None)]"

text \<open>
  The items of the pages among the responses \<open>h\<close>, as the loop of line 133 iterates them,
  and the test for a non-empty string.
\<close>

definition page_members :: "response \<Rightarrow> json list" where
  "page_members resp =
     (case json_body resp of
        None \<Rightarrow> []
      | Some data \<Rightarrow> (case py_iter data of Inl e \<Rightarrow> [] | Inr items \<Rightarrow> items))"

definition items_of :: "(string \<times> response) list \<Rightarrow> json list" where
  "items_of h = concat (map (\<lambda>p. page_members (snd p)) h)"

definition nonempty_string :: "json \<Rightarrow> bool" where
  "nonempty_string v = (case v of JStr s \<Rightarrow> s \<noteq> [] | _ \<Rightarrow> False)"

definition numeric_world :: world where
  "numeric_world =
     scripted_world [Inr (ok_response (JList [JObj [embedded_field (JNum 7)]]) None)]"

text \<open>
  A user record: a dict whose profile, credentials and provider are each absent, falsy
  (as \<^verbatim>\<open>null\<close> is) or a dict.
\<close>

definition is_dict :: "json \<Rightarrow> bool" where
  "is_dict v = (case v of JObj kv \<Rightarrow> True | _ \<Rightarrow> False)"

definition user_record :: "json \<Rightarrow> bool" where
  "user_record user =
     (case user of
        JObj kv \<Rightarrow>
          is_dict (py_or (dict_get kv ''profile'' (JObj [])) (JObj []))
          \<and> (case py_or (dict_get kv ''credentials'' (JObj [])) (JObj []) of
                JObj ckv \<Rightarrow> is_dict (py_or (dict_get ckv ''provider'' (JObj [])) (JObj []))
              | _ \<Rightarrow> False)
      | _ \<Rightarrow> False)"

text \<open>
  What holds of an identifier that the collector adds while it receives the items
  \<open>items\<close>: it is truthy and hashable, and it is a non-empty string unless it is the id of
  the embedded user of one of the items.
\<close>

definition identifier_ok :: "json list \<Rightarrow> json \<Rightarrow> bool" where
  "identifier_ok items x =
     (truthy x \<and> hashable x
      \<and> (nonempty_string x \<or> (\<exists>item\<in>set items. embedded_user_id item = Inr x)))"


definition links_world :: world where
  "links_world = scripted_world [Inr (ok_response (JList demo_links) None)]"

text \<open>
  Two runs meet the same backend when the responses to come are the same; the clock, the
  sleeps and what was received, written and printed before may differ. A part of the
  program respects this when, started in two such worlds, a run that ends in the one ends
  in the other with the same result, and the responses to come are again the same.
\<close>

definition simulates :: "(world \<Rightarrow> ('a \<times> world) option) \<Rightarrow> bool" where
  "simulates f =
     (\<forall>w1 w2 r w1'. server w1 = server w2 \<and> f w1 = Some (r, w1') \<longrightarrow>
        (\<exists>w2'. f w2 = Some (r, w2') \<and> server w1' = server w2'))"

definition busy_world :: world where
  "busy_world =
     scripted_world
       [Inr (rate_limited [(''X-Rate-Limit-Reset'', ''1005'')]),
        Inr (ok_response (JList demo_users) None),
        Inr (ok_response (JList demo_links) None)]"

definition later_world :: world where
  "later_world =
     busy_world\<lparr>clock := (\<lambda>n. 5000 + int n), slept := [2, 6], stdout := [''earlier run'']\<rparr>"

section \<open>Facts about the model\<close>

lemma ebind_Inl [simp]: "ebind (Inl e) f = Inl e"
  by (simp add: ebind_def)

lemma ebind_Inr [simp]: "ebind (Inr x) f = f x"
  by (simp add: ebind_def)

lemma ebind_eq_Inr: "ebind m f = Inr y \<longleftrightarrow> (\<exists>x. m = Inr x \<and> f x = Inr y)"
  by (cases m) simp_all

lemma py_get_eq_Inr: "py_get x k d = Inr v \<longleftrightarrow> (\<exists>kv. x = JObj kv \<and> v = dict_get kv k d)"
  by (cases x) (auto simp: py_get_def)

lemma outcomeD: "map_option fst m = Some r \<Longrightarrow> m = Some (r, snd (the m))"
  by (cases m) auto

lemma transform_user_origin:
  assumes "transform_user repr S user = Inr r"
  shows "user_id r = user_identifier user \<and> hashable (user_identifier user)
     \<and> origin r = (if set_member (user_identifier user) S then ''Imported (bob)'' else ''Manual (OKTA)'')"
  using assms
  by (auto simp: transform_user_def ebind_eq_Inr py_get_eq_Inr user_identifier_def Let_def py_in_set_def split: if_splits)

lemma transform_rows_Inr:
  "transform_rows repr S users rows = Inr out \<Longrightarrow>
     \<exists>new. out = rows @ new \<and> list_all2 (\<lambda>u r. transform_user repr S u = Inr r) users new"
proof (induction users arbitrary: rows)
  case Nil
  then show ?case by simp
next
  case (Cons user users)
  from Cons.prems obtain r where r: "transform_user repr S user = Inr r"
    and rest: "transform_rows repr S users (rows @ [r]) = Inr out"
    by (auto simp: ebind_eq_Inr)
  from Cons.IH [OF rest] obtain new where "out = (rows @ [r]) @ new"
    and "list_all2 (\<lambda>u r. transform_user repr S u = Inr r) users new" by blast
  with r show ?case by (intro exI [of _ "r # new"]) simp
qed

lemma transform_rows_nth:
  assumes "transform_rows repr S users [] = Inr rows"
  shows "length rows = length users"
    and "i < length users \<Longrightarrow> transform_user repr S (users ! i) = Inr (rows ! i)"
  using transform_rows_Inr [OF assms] by (auto simp: list_all2_conv_all_nth)

lemma main_success:
  assumes "main repr cfg w = Some (Inr rows, w')"
  shows "\<exists>bob_app_id w1 users w2 bob_user_ids w3.
           resolve_bob_app_id cfg w = Some (Inr bob_app_id, w1)
         \<and> collect_okta_users cfg w1 = Some (Inr users, w2)
         \<and> collect_bob_user_ids repr cfg bob_app_id w2 = Some (Inr bob_user_ids, w3)
         \<and> transform_rows repr bob_user_ids users [] = Inr rows
         \<and> w' = export bob_app_id repr rows w3"
  using assms unfolding main_def
  by (auto split: Option.bind_splits sum.splits prod.splits)

lemma demo_run: "map_option fst (main no_repr demo_config demo_world) = Some (Inr demo_rows)"
  by code_simp

lemma transform_user_Inr:
  assumes "transform_user repr S user = Inr r"
  shows "\<exists>kv ckv pkv.
           user = JObj kv
         \<and> py_or (dict_get kv ''credentials'' (JObj [])) (JObj []) = JObj ckv
         \<and> py_or (dict_get ckv ''provider'' (JObj [])) (JObj []) = JObj pkv
         \<and> okta_configuration_status r =
             (if set_member (user_identifier user) S then JStr ''Imported (bob)''
              else provider_status repr (dict_get pkv ''type'' (JStr ''UNKNOWN''))
                     (dict_get pkv ''name'' (JStr ''UNKNOWN'')))"
  using assms
  by (auto simp: transform_user_def ebind_eq_Inr py_get_eq_Inr Let_def py_in_set_def user_identifier_def
        split: if_splits)

lemma spec_provider_field_eq:
  assumes "py_or (dict_get kv ''credentials'' (JObj [])) (JObj []) = JObj ckv"
      and "py_or (dict_get ckv ''provider'' (JObj [])) (JObj []) = JObj pkv"
  shows "spec_provider_field k (JObj kv) = dict_get pkv k (JStr ''UNKNOWN'')"
proof (cases "map_of kv ''credentials''")
  case None
  with assms show ?thesis
    by (auto simp: spec_provider_field_def dict_get_def py_or_def split: if_splits)
next
  case (Some c)
  show ?thesis
  proof (cases "truthy c")
    case False
    with Some assms show ?thesis
      by (auto simp: spec_provider_field_def dict_get_def py_or_def split: if_splits)
  next
    case True
    with Some assms(1) have c: "c = JObj ckv"
      by (simp add: dict_get_def py_or_def)
    show ?thesis
    proof (cases "map_of ckv ''provider''")
      case None
      with Some True c assms(2) show ?thesis
        by (auto simp: spec_provider_field_def dict_get_def py_or_def split: if_splits)
    next
      case p: (Some p)
      show ?thesis
      proof (cases "truthy p")
        case False
        with Some True c p assms(2) show ?thesis
          by (auto simp: spec_provider_field_def dict_get_def py_or_def split: if_splits)
      next
        case tp: True
        with p assms(2) have "p = JObj pkv"
          by (simp add: dict_get_def py_or_def)
        with Some True c p tp show ?thesis
          by (simp add: spec_provider_field_def dict_get_def split: option.splits)
      qed
    qed
  qed
qed

lemma transform_user_status:
  assumes "transform_user repr S user = Inr r"
  shows "okta_configuration_status r = spec_configuration_status repr S user"
proof -
  from transform_user_Inr [OF assms] obtain kv ckv pkv where
    u: "user = JObj kv"
    and c: "py_or (dict_get kv ''credentials'' (JObj [])) (JObj []) = JObj ckv"
    and p: "py_or (dict_get ckv ''provider'' (JObj [])) (JObj []) = JObj pkv"
    and s: "okta_configuration_status r =
             (if set_member (user_identifier user) S then JStr ''Imported (bob)''
              else provider_status repr (dict_get pkv ''type'' (JStr ''UNKNOWN''))
                     (dict_get pkv ''name'' (JStr ''UNKNOWN'')))"
    by blast
  show ?thesis
    unfolding s spec_configuration_status_def spec_provider_status_def provider_status_def u
    by (simp add: spec_provider_field_eq [OF c p] Let_def)
qed

section \<open>Facts about the string functions\<close>

lemma py_split_not_Nil [simp]: "py_split sep s \<noteq> []"
  by (induction sep s rule: py_split.induct) (auto split: list.splits)

lemma contains_Nil [simp]: "contains [] s"
  by (cases s) simp_all

lemma contains_iff: "contains sub s \<longleftrightarrow> (\<exists>pre post. s = pre @ sub @ post)"
proof (induction s)
  case Nil
  then show ?case by auto
next
  case (Cons c cs)
  show ?case
  proof
    assume "contains sub (c # cs)"
    then consider "prefix sub (c # cs)" | "contains sub cs" by auto
    then show "\<exists>pre post. c # cs = pre @ sub @ post"
    proof cases
      case 1
      then obtain post where "c # cs = sub @ post" by (auto simp: prefix_def)
      then have "c # cs = [] @ sub @ post" by simp
      then show ?thesis by blast
    next
      case 2
      with Cons.IH obtain pre post where "cs = pre @ sub @ post" by blast
      then have "c # cs = (c # pre) @ sub @ post" by simp
      then show ?thesis by blast
    qed
  next
    assume "\<exists>pre post. c # cs = pre @ sub @ post"
    then obtain pre post where eq: "c # cs = pre @ sub @ post" by blast
    show "contains sub (c # cs)"
    proof (cases pre)
      case Nil
      with eq have "prefix sub (c # cs)" by (simp add: prefix_def)
      then show ?thesis by simp
    next
      case (Cons a pre')
      with eq have "cs = pre' @ sub @ post" by simp
      with Cons.IH have "contains sub cs" by blast
      then show ?thesis by simp
    qed
  qed
qed





lemma digit_val_digit_char: "d < 10 \<Longrightarrow> digit_val (digit_char d) = d"
proof -
  assume "d < 10"
  then have "d = 0 \<or> d = 1 \<or> d = 2 \<or> d = 3 \<or> d = 4 \<or> d = 5 \<or> d = 6 \<or> d = 7 \<or> d = 8 \<or> d = 9"
    by arith
  then show ?thesis
    by (auto simp: digit_val_def digit_char_def)
qed

lemma decimal_digit_char: "d < 10 \<Longrightarrow> digit_char d \<in> set ''0123456789''"
proof -
  assume "d < 10"
  then have "d = 0 \<or> d = 1 \<or> d = 2 \<or> d = 3 \<or> d = 4 \<or> d = 5 \<or> d = 6 \<or> d = 7 \<or> d = 8 \<or> d = 9"
    by arith
  then show ?thesis
    by (auto simp: digit_char_def)
qed

lemma decimal_isdigit:
  assumes "s \<noteq> []" and "list_all (\<lambda>c. c \<in> set ''0123456789'') s"
  shows "isdigit s"
proof -
  have "is_digit_char c" if "c \<in> set ''0123456789''" for c
    unfolding is_digit_char_def set_append using that by (rule UnI1)
  with assms(2) have "list_all is_digit_char s"
    unfolding list_all_iff by blast
  with assms(1) show ?thesis unfolding isdigit_def by (rule conjI)
qed

text \<open>The decimal rendering of a number is a string of digits that reads back as the number.\<close>

lemma show_nat_decimal:
  "show_nat n \<noteq> [] \<and> list_all (\<lambda>c. c \<in> set ''0123456789'') (show_nat n)
   \<and> foldl (\<lambda>a c. 10 * a + digit_val c) 0 (show_nat n) = n"
proof (induction n rule: show_nat.induct)
  case (1 n)
  show ?case
  proof (cases "n < 10")
    case True
    then have eq: "show_nat n = [digit_char n]" by (subst show_nat.simps) simp
    from decimal_digit_char [OF True] digit_val_digit_char [OF True] show ?thesis
      unfolding eq by simp
  next
    case False
    with 1 have IH: "list_all (\<lambda>c. c \<in> set ''0123456789'') (show_nat (n div 10))"
      "foldl (\<lambda>a c. 10 * a + digit_val c) 0 (show_nat (n div 10)) = n div 10"
      by simp_all
    have d: "n mod 10 < 10" by simp
    from False have eq: "show_nat n = show_nat (n div 10) @ [digit_char (n mod 10)]"
      by (subst show_nat.simps) simp
    from IH decimal_digit_char [OF d] show ?thesis
      unfolding eq by (simp add: digit_val_digit_char [OF d])
  qed
qed

lemma show_nat_digits: "isdigit (show_nat n) \<and> py_int (show_nat n) = Inr (int n)"
proof -
  note d = show_nat_decimal [of n]
  note a = d [THEN conjunct1] and b = d [THEN conjunct2, THEN conjunct1]
    and c = d [THEN conjunct2, THEN conjunct2]
  have "py_int (show_nat n) = Inr (int n)"
    unfolding py_int_def by (simp only: a b c simp_thms if_True)
  with decimal_isdigit [OF a b] show ?thesis by (rule conjI)
qed

section \<open>Facts about the HTTP client\<close>

lemmas get_induct = get.raw_induct [rotated 1, consumes 1, case_names step]

lemmas get_paginated_loop_induct =
  get_paginated_loop.raw_induct [rotated 1, consumes 1, case_names step]

lemmas collect_loop_induct = collect_loop.raw_induct [rotated 1, consumes 1, case_names step]

lemma sleep_for_rate_limit_keeps [simp]:
  "history (snd (sleep_for_rate_limit resp w)) = history w"
  "server (snd (sleep_for_rate_limit resp w)) = server w"
  "report (snd (sleep_for_rate_limit resp w)) = report w"
  "stdout (snd (sleep_for_rate_limit resp w)) = stdout w"
  by (simp_all add: sleep_for_rate_limit_def split: option.splits sum.splits)

text \<open>Whether the sleep raises depends on the response alone, not on the world.\<close>

lemma sleep_for_rate_limit_fst: "fst (sleep_for_rate_limit resp w) = fst (sleep_for_rate_limit resp w')"
  by (simp add: sleep_for_rate_limit_def split: option.splits sum.splits)

lemma sleep_for_rate_limit_429:
  assumes "status_code resp = 429"
  shows "fst (sleep_for_rate_limit resp w) = Inr True \<or> (\<exists>e. fst (sleep_for_rate_limit resp w) = Inl e)"
  using assms by (simp add: sleep_for_rate_limit_def split: option.splits sum.splits)

lemma session_get_Inl:
  "server w 0 url = Inl e \<Longrightarrow> session_get url w = (Inl e, w\<lparr>server := (\<lambda>n. server w (Suc n))\<rparr>)"
  by (simp add: session_get_def Let_def)

lemma session_get_Inr:
  "server w 0 url = Inr resp \<Longrightarrow>
     session_get url w =
       (Inr resp, w\<lparr>server := (\<lambda>n. server w (Suc n)), history := history w @ [(url, resp)]\<rparr>)"
  by (simp add: session_get_def Let_def)

lemma get_error:
  assumes "server w 0 url = Inl e"
  shows "get url w = Some (Inl e, snd (session_get url w))"
  using assms by (subst get.simps) (simp add: session_get_Inl)

lemma get_return:
  assumes "server w 0 url = Inr resp" "status_code resp \<noteq> 429"
  shows "get url w = Some (Inr resp, snd (session_get url w))"
  using assms by (subst get.simps) (simp add: session_get_Inr)

lemma get_retry:
  assumes "server w 0 url = Inr resp" "status_code resp = 429"
    and "fst (sleep_for_rate_limit resp (snd (session_get url w))) = Inr True"
  shows "get url w = get url (snd (sleep_for_rate_limit resp (snd (session_get url w))))"
  using assms by (subst get.simps) (simp add: session_get_Inr case_prod_beta)

lemma get_sleep_error:
  assumes "server w 0 url = Inr resp" "status_code resp = 429"
    and "fst (sleep_for_rate_limit resp (snd (session_get url w))) = Inl e"
  shows "get url w = Some (Inl e, snd (sleep_for_rate_limit resp (snd (session_get url w))))"
  using assms by (subst get.simps) (simp add: session_get_Inr case_prod_beta)

lemma get_effect: "get url w = Some y \<Longrightarrow> get_post url w y"
proof (induction rule: get_induct)
  case (step g url w y)
  show ?case
  proof (cases "server w 0 url")
    case (Inl e)
    with step.hyps have "y = (Inl e, w\<lparr>server := (\<lambda>n. server w (Suc n))\<rparr>)"
      by (auto simp: session_get_Inl)
    then show ?thesis by (simp add: get_post_def)
  next
    case (Inr resp)
    let ?w1 = "w\<lparr>server := (\<lambda>n. server w (Suc n)), history := history w @ [(url, resp)]\<rparr>"
    show ?thesis
    proof (cases "status_code resp = 429")
      case False
      with Inr step.hyps have "y = (Inr resp, ?w1)" by (auto simp: session_get_Inr)
      with False show ?thesis by (simp add: get_post_def)
    next
      case True
      let ?w2 = "snd (sleep_for_rate_limit resp ?w1)"
      from sleep_for_rate_limit_429 [OF True, of ?w1]
      consider "fst (sleep_for_rate_limit resp ?w1) = Inr True"
        | e where "fst (sleep_for_rate_limit resp ?w1) = Inl e" by blast
      then show ?thesis
      proof cases
        case 2
        with True Inr step.hyps have "y = (Inl e, ?w2)"
          by (auto simp: session_get_Inr case_prod_beta)
        with True show ?thesis by (simp add: get_post_def)
      next
        case 1
        with True Inr step.hyps have "g url ?w2 = Some y"
          by (simp add: session_get_Inr case_prod_beta)
        then have "get_post url ?w2 y" by (rule step.IH)
        then obtain h where
          h: "history (snd y) = history ?w2 @ h" "report (snd y) = report ?w2"
            "stdout (snd y) = stdout ?w2"
          and c: "(case fst y of
                Inl e \<Rightarrow> list_all (\<lambda>p. status_code (snd p) = 429) h
              | Inr resp \<Rightarrow>
                  status_code resp \<noteq> 429
                  \<and> (\<exists>h0. h = h0 @ [(url, resp)] \<and> list_all (\<lambda>p. status_code (snd p) = 429) h0))"
          unfolding get_post_def by blast
        from h have h': "history (snd y) = history w @ ((url, resp) # h)"
          "report (snd y) = report w" "stdout (snd y) = stdout w" by simp_all
        have "case fst y of
                Inl e \<Rightarrow> list_all (\<lambda>p. status_code (snd p) = 429) ((url, resp) # h)
              | Inr r \<Rightarrow>
                  status_code r \<noteq> 429
                  \<and> (\<exists>h0. (url, resp) # h = h0 @ [(url, r)]
                        \<and> list_all (\<lambda>p. status_code (snd p) = 429) h0)"
        proof (cases "fst y")
          case (Inl e)
          with c True show ?thesis by simp
        next
          case r: (Inr r)
          with c obtain h0 where "status_code r \<noteq> 429" "h = h0 @ [(url, r)]"
            "list_all (\<lambda>p. status_code (snd p) = 429) h0" by auto
          then have "(url, resp) # h = ((url, resp) # h0) @ [(url, r)]"
            "list_all (\<lambda>p. status_code (snd p) = 429) ((url, resp) # h0)" using True by simp_all
          with \<open>status_code r \<noteq> 429\<close> r show ?thesis by (simp del: append_Cons)
        qed
        with h' show ?thesis unfolding get_post_def by blast
      qed
    qed
  qed
qed

section \<open>Facts about the app resolver\<close>







section \<open>Facts about the pagination loops\<close>

lemma get_paginated_loop_unfold:
  "get_paginated_loop url items w =
     (if \<not> str_truthy url then Some (Inr items, w)
      else
        Option.bind (fetch_page (the url) w) (\<lambda>(r, w1).
          case r of
            Inl e \<Rightarrow> Some (Inl e, w1)
          | Inr (resp, data) \<Rightarrow>
              get_paginated_loop (next_url resp) (items @ page_items data) w1))"
  by (subst get_paginated_loop.simps)
    (auto simp: fetch_page_def split: Option.bind_splits sum.splits option.splits)

lemma collect_loop_unfold:
  "collect_loop url user_ids w =
     (if \<not> str_truthy url then Some (Inr user_ids, w)
      else
        Option.bind (fetch_page (the url) w) (\<lambda>(r, w1).
          case r of
            Inl e \<Rightarrow> Some (Inl e, w1)
          | Inr (resp, data) \<Rightarrow>
              (case ebind (py_iter data) (add_items user_ids) of
                 Inl e \<Rightarrow> Some (Inl e, w1)
               | Inr user_ids' \<Rightarrow> collect_loop (next_url resp) user_ids' w1)))"
  by (subst collect_loop.simps)
    (auto simp: fetch_page_def split: Option.bind_splits sum.splits option.splits)

lemma get_paginated_loop_stop:
  "\<not> str_truthy url \<Longrightarrow> get_paginated_loop url items w = Some (Inr items, w)"
  by (subst get_paginated_loop_unfold) simp

lemma get_paginated_loop_fail:
  "str_truthy url \<Longrightarrow> fetch_page (the url) w = Some (Inl e, w1) \<Longrightarrow>
     get_paginated_loop url items w = Some (Inl e, w1)"
  by (subst get_paginated_loop_unfold) simp

lemma get_paginated_loop_page:
  "str_truthy url \<Longrightarrow> fetch_page (the url) w = Some (Inr (resp, data), w1) \<Longrightarrow>
     get_paginated_loop url items w
       = get_paginated_loop (next_url resp) (items @ page_items data) w1"
  by (subst get_paginated_loop_unfold) simp

lemma get_paginated_loop_diverge:
  "str_truthy url \<Longrightarrow> fetch_page (the url) w = None \<Longrightarrow> get_paginated_loop url items w = None"
  by (subst get_paginated_loop_unfold) simp

lemma collect_loop_stop:
  "\<not> str_truthy url \<Longrightarrow> collect_loop url user_ids w = Some (Inr user_ids, w)"
  by (subst collect_loop_unfold) simp

lemma collect_loop_fail:
  "str_truthy url \<Longrightarrow> fetch_page (the url) w = Some (Inl e, w1) \<Longrightarrow>
     collect_loop url user_ids w = Some (Inl e, w1)"
  by (subst collect_loop_unfold) simp

lemma collect_loop_bad_item:
  "str_truthy url \<Longrightarrow> fetch_page (the url) w = Some (Inr (resp, data), w1) \<Longrightarrow>
     ebind (py_iter data) (add_items user_ids) = Inl e \<Longrightarrow>
     collect_loop url user_ids w = Some (Inl e, w1)"
  by (subst collect_loop_unfold) simp

lemma collect_loop_page:
  "str_truthy url \<Longrightarrow> fetch_page (the url) w = Some (Inr (resp, data), w1) \<Longrightarrow>
     ebind (py_iter data) (add_items user_ids) = Inr user_ids' \<Longrightarrow>
     collect_loop url user_ids w = collect_loop (next_url resp) user_ids' w1"
  by (subst collect_loop_unfold) simp

lemma collect_loop_diverge:
  "str_truthy url \<Longrightarrow> fetch_page (the url) w = None \<Longrightarrow> collect_loop url user_ids w = None"
  by (subst collect_loop_unfold) simp

text \<open>Induction over a run of a loop that ends, in terms of the pages fetched.\<close>

lemma get_paginated_loop_run [consumes 1, case_names stop fail page]:
  assumes run: "get_paginated_loop url items w = Some y"
    and stop: "\<And>url items w. \<not> str_truthy url \<Longrightarrow> P url items w (Inr items, w)"
    and fail: "\<And>url items w e w1. str_truthy url \<Longrightarrow> fetch_page (the url) w = Some (Inl e, w1)
        \<Longrightarrow> P url items w (Inl e, w1)"
    and page: "\<And>url items w resp data w1 y. str_truthy url
        \<Longrightarrow> fetch_page (the url) w = Some (Inr (resp, data), w1)
        \<Longrightarrow> get_paginated_loop (next_url resp) (items @ page_items data) w1 = Some y
        \<Longrightarrow> P (next_url resp) (items @ page_items data) w1 y
        \<Longrightarrow> P url items w y"
  shows "P url items w y"
proof -
  from run have "get_paginated_loop url items w = Some y \<and> P url items w y"
  proof (induction rule: get_paginated_loop_induct)
    case (step g url items w y)
    show ?case
    proof (cases "str_truthy url")
      case False
      with step.hyps have "y = (Inr items, w)" by simp
      with False stop [OF False] show ?thesis by (simp add: get_paginated_loop_stop)
    next
      case True
      with step.hyps obtain r w1 where g: "get (the url) w = Some (r, w1)"
        by (auto split: Option.bind_splits)
      show ?thesis
      proof (cases "fetch_page (the url) w")
        case None
        with g show ?thesis by (auto simp: fetch_page_def split: sum.splits option.splits if_splits)
      next
        case (Some p)
        obtain res w1' where p: "p = (res, w1')" by (cases p)
        show ?thesis
        proof (cases res)
          case (Inl e)
          with Some p g True step.hyps have "y = (Inl e, w1')"
            by (auto simp: fetch_page_def split: sum.splits option.splits if_splits)
          with Inl Some p True fail show ?thesis by (simp add: get_paginated_loop_fail)
        next
          case (Inr rd)
          obtain resp data where rd: "rd = (resp, data)" by (cases rd)
          with Inr Some p g True step.hyps
          have "g (next_url resp) (items @ page_items data) w1' = Some y"
            by (auto simp: fetch_page_def split: sum.splits option.splits if_splits)
          from step.IH [OF this] Inr Some p rd True page show ?thesis
            by (simp add: get_paginated_loop_page)
        qed
      qed
    qed
  qed
  then show ?thesis ..
qed

lemma collect_loop_run [consumes 1, case_names stop fail bad_item page]:
  assumes run: "collect_loop url user_ids w = Some y"
    and stop: "\<And>url user_ids w. \<not> str_truthy url \<Longrightarrow> P url user_ids w (Inr user_ids, w)"
    and fail: "\<And>url user_ids w e w1. str_truthy url
        \<Longrightarrow> fetch_page (the url) w = Some (Inl e, w1)
        \<Longrightarrow> P url user_ids w (Inl e, w1)"
    and bad_item: "\<And>url user_ids w resp data w1 e. str_truthy url
        \<Longrightarrow> fetch_page (the url) w = Some (Inr (resp, data), w1)
        \<Longrightarrow> ebind (py_iter data) (add_items user_ids) = Inl e
        \<Longrightarrow> P url user_ids w (Inl e, w1)"
    and page: "\<And>url user_ids w resp data w1 user_ids' y. str_truthy url
        \<Longrightarrow> fetch_page (the url) w = Some (Inr (resp, data), w1)
        \<Longrightarrow> ebind (py_iter data) (add_items user_ids) = Inr user_ids'
        \<Longrightarrow> collect_loop (next_url resp) user_ids' w1 = Some y
        \<Longrightarrow> P (next_url resp) user_ids' w1 y
        \<Longrightarrow> P url user_ids w y"
  shows "P url user_ids w y"
proof -
  from run have "collect_loop url user_ids w = Some y \<and> P url user_ids w y"
  proof (induction rule: collect_loop_induct)
    case (step g url user_ids w y)
    show ?case
    proof (cases "str_truthy url")
      case False
      with step.hyps have "y = (Inr user_ids, w)" by simp
      with False stop [OF False] show ?thesis by (simp add: collect_loop_stop)
    next
      case True
      with step.hyps obtain r w1 where g: "get (the url) w = Some (r, w1)"
        by (auto split: Option.bind_splits)
      show ?thesis
      proof (cases "fetch_page (the url) w")
        case None
        with g show ?thesis by (auto simp: fetch_page_def split: sum.splits option.splits if_splits)
      next
        case (Some p)
        obtain res w1' where p: "p = (res, w1')" by (cases p)
        show ?thesis
        proof (cases res)
          case (Inl e)
          with Some p g True step.hyps have "y = (Inl e, w1')"
            by (auto simp: fetch_page_def split: sum.splits option.splits if_splits)
          with Inl Some p True fail show ?thesis by (simp add: collect_loop_fail)
        next
          case (Inr rd)
          obtain resp data where rd: "rd = (resp, data)" by (cases rd)
          show ?thesis
          proof (cases "ebind (py_iter data) (add_items user_ids)")
            case e: (Inl e)
            with rd Inr Some p g True step.hyps have "y = (Inl e, w1')"
              by (auto simp: fetch_page_def split: sum.splits option.splits if_splits)
            with e Inr Some p rd True bad_item show ?thesis
              by (simp add: collect_loop_bad_item)
          next
            case ids: (Inr user_ids')
            with rd Inr Some p g True step.hyps
            have "g (next_url resp) user_ids' w1' = Some y"
              by (auto simp: fetch_page_def split: sum.splits option.splits if_splits)
            from step.IH [OF this] ids Inr Some p rd True page show ?thesis
              by (simp add: collect_loop_page)
          qed
        qed
      qed
    qed
  qed
  then show ?thesis ..
qed

section \<open>What a run leaves behind\<close>

lemma result_error_simps [simp]:
  "result_error (Inl e) = Some e" "result_error (Inr x) = None"
  by (simp_all add: result_error_def)

lemma run_post_refl: "run_post w err w"
  by (simp add: run_post_def blames_def)

lemma blames_None: "blames h None \<Longrightarrow> blames h err"
  by (induction h) (auto simp: blames_def)

lemma run_post_trans:
  assumes "run_post w None w1" "run_post w1 err w2"
  shows "run_post w err w2"
proof -
  from assms obtain h1 h2 where
    "history w1 = history w @ h1" "report w1 = report w" "stdout w1 = stdout w" "blames h1 None"
    "history w2 = history w1 @ h2" "report w2 = report w1" "stdout w2 = stdout w1" "blames h2 err"
    unfolding run_post_def by blast
  then have "history w2 = history w @ (h1 @ h2)" "report w2 = report w" "stdout w2 = stdout w"
    "blames (h1 @ h2) err"
    using blames_None [of h1 err] by (simp_all add: blames_def)
  then show ?thesis unfolding run_post_def by blast
qed

lemma fetch_page_post:
  assumes "fetch_page u w = Some (res, w1)"
  shows "run_post w (result_error res) w1"
proof -
  from assms obtain r where g: "get u w = Some (r, w1)"
    by (auto simp: fetch_page_def split: Option.bind_splits sum.splits option.splits if_splits)
  from get_effect [OF g] obtain h where
    h: "history w1 = history w @ h" "report w1 = report w" "stdout w1 = stdout w"
    and c: "case r of
              Inl e \<Rightarrow> list_all (\<lambda>p. status_code (snd p) = 429) h
            | Inr resp \<Rightarrow>
                status_code resp \<noteq> 429
                \<and> (\<exists>h0. h = h0 @ [(u, resp)] \<and> list_all (\<lambda>p. status_code (snd p) = 429) h0)"
    unfolding get_post_def by auto
  have limited: "blames h0 err" if "list_all (\<lambda>p. status_code (snd p) = 429) h0" for h0 err
    using that by (induction h0) (auto simp: blames_def)
  have "blames h (result_error res)"
  proof (cases r)
    case (Inl e)
    with c show ?thesis by (simp add: limited)
  next
    case (Inr resp)
    with c obtain h0 where h0: "h = h0 @ [(u, resp)]"
      "list_all (\<lambda>p. status_code (snd p) = 429) h0" by auto
    from assms g Inr have
      "status_code resp = 200 \<or> res = Inl (PyException (api_error_message u resp))"
      by (auto simp: fetch_page_def split: option.splits if_splits)
    then have "blames [(u, resp)] (result_error res)"
      by (auto simp: blames_def result_error_def)
    with limited [OF h0(2), of "result_error res"] h0(1) show ?thesis
      by (simp add: blames_def)
  qed
  with h show ?thesis unfolding run_post_def by blast
qed

lemma fetch_page_post_Inr:
  "fetch_page u w = Some (Inr x, w1) \<Longrightarrow> run_post w None w1"
  using fetch_page_post [of u w "Inr x" w1] by (simp add: result_error_def)

lemma get_paginated_loop_post:
  assumes "get_paginated_loop url items w = Some y"
  shows "run_post w (result_error (fst y)) (snd y)"
  using assms
proof (induction rule: get_paginated_loop_run)
  case (stop url items w)
  then show ?case by (simp add: run_post_refl)
next
  case (fail url items w e w1)
  from fetch_page_post [OF fail(2)] show ?case by simp
next
  case (page url items w resp data w1 y)
  from run_post_trans [OF fetch_page_post_Inr [OF page(2)] page(4)] show ?case .
qed

lemma collect_loop_post:
  assumes "collect_loop url user_ids w = Some y"
  shows "run_post w (result_error (fst y)) (snd y)"
  using assms
proof (induction rule: collect_loop_run)
  case (stop url user_ids w)
  then show ?case by (simp add: run_post_refl)
next
  case (fail url user_ids w e w1)
  from fetch_page_post [OF fail(2)] show ?case by simp
next
  case (bad_item url user_ids w resp data w1 e)
  from fetch_page_post_Inr [OF bad_item(2)] show ?case
    by (auto simp: run_post_def intro: blames_None)
next
  case (page url user_ids w resp data w1 user_ids' y)
  from run_post_trans [OF fetch_page_post_Inr [OF page(2)] page(5)] show ?case .
qed

lemma resolve_bob_app_id_post:
  assumes "resolve_bob_app_id cfg w = Some (res, w1)"
  shows "run_post w (result_error res) w1"
proof (cases "str_truthy (BOB_APP_ID cfg) \<or> \<not> str_truthy (BOB_APP_LABEL cfg)")
  case True
  with assms have "w1 = w" by (auto simp: resolve_bob_app_id_def split: if_splits)
  then show ?thesis by (simp add: run_post_refl)
next
  case False
  with assms obtain r where
    p: "get_paginated (apps_url cfg (the (BOB_APP_LABEL cfg))) w = Some (r, w1)"
    and res: "res = ebind r (select_app (the (BOB_APP_LABEL cfg)))"
    by (auto simp: resolve_bob_app_id_def apps_url_def Let_def split: Option.bind_splits)
  from get_paginated_loop_post [OF p [unfolded get_paginated_def]]
  have post: "run_post w (result_error r) w1" by simp
  show ?thesis
  proof (cases r)
    case (Inl e)
    with res post show ?thesis by simp
  next
    case (Inr apps)
    with post have "run_post w None w1" by (simp add: result_error_def)
    then show ?thesis by (auto simp: run_post_def intro: blames_None)
  qed
qed

lemma main_post:
  assumes "main repr cfg w = Some (res, w')"
  shows "(\<forall>e. res = Inl e \<longrightarrow> run_post w (Some e) w')
       \<and> (\<forall>rows. res = Inr rows \<longrightarrow>
            (\<exists>w3. run_post w None w3 \<and> history w' = history w3 \<and> report w' = Some rows))"
proof -
  from assms obtain r1 w1 where s1: "resolve_bob_app_id cfg w = Some (r1, w1)"
    unfolding main_def by (auto split: Option.bind_splits)
  note p1 = resolve_bob_app_id_post [OF s1]
  show ?thesis
  proof (cases r1)
    case (Inl e)
    with assms s1 have "res = Inl e" "w' = w1" unfolding main_def by simp_all
    with p1 Inl show ?thesis by (simp add: result_error_def)
  next
    case a: (Inr bob_app_id)
    with p1 have q1: "run_post w None w1" by (simp add: result_error_def)
    from assms s1 a obtain r2 w2 where s2: "collect_okta_users cfg w1 = Some (r2, w2)"
      unfolding main_def by (auto split: Option.bind_splits)
    from get_paginated_loop_post [OF s2 [unfolded collect_okta_users_def get_paginated_def]]
    have p2: "run_post w1 (result_error r2) w2" by simp
    show ?thesis
    proof (cases r2)
      case (Inl e)
      with assms s1 a s2 have "res = Inl e" "w' = w2" unfolding main_def by simp_all
      with run_post_trans [OF q1 p2] Inl show ?thesis by (simp add: result_error_def)
    next
      case u: (Inr users)
      with p2 have "run_post w1 None w2" by (simp add: result_error_def)
      with q1 have q2: "run_post w None w2" by (rule run_post_trans)
      from assms s1 a s2 u obtain r3 w3 where
        s3: "collect_bob_user_ids repr cfg bob_app_id w2 = Some (r3, w3)"
        unfolding main_def by (auto split: Option.bind_splits)
      from collect_loop_post [OF s3 [unfolded collect_bob_user_ids_def]]
      have p3: "run_post w2 (result_error r3) w3" by simp
      show ?thesis
      proof (cases r3)
        case (Inl e)
        with assms s1 a s2 u s3 have "res = Inl e" "w' = w3" unfolding main_def by simp_all
        with run_post_trans [OF q2 p3] Inl show ?thesis by (simp add: result_error_def)
      next
        case i: (Inr bob_user_ids)
        with p3 have "run_post w2 None w3" by (simp add: result_error_def)
        with q2 have q3: "run_post w None w3" by (rule run_post_trans)
        show ?thesis
        proof (cases "transform_rows repr bob_user_ids users []")
          case (Inl e)
          with assms s1 a s2 u s3 i have "res = Inl e" "w' = w3" unfolding main_def by simp_all
          with q3 show ?thesis by (auto simp: run_post_def intro: blames_None)
        next
          case (Inr rows)
          with assms s1 a s2 u s3 i have "res = Inr rows" "w' = export bob_app_id repr rows w3"
            unfolding main_def by simp_all
          with q3 show ?thesis by (auto simp: export_def)
        qed
      qed
    qed
  qed
qed

section \<open>Facts about the pages of a fetch\<close>

lemma fetch_page_Inr_iff:
  "fetch_page u w = Some (Inr (resp, data), w1) \<longleftrightarrow>
     get u w = Some (Inr resp, w1) \<and> status_code resp = 200 \<and> json_body resp = Some data"
  by (auto simp: fetch_page_def split: Option.bind_splits sum.splits option.splits if_splits)

lemma fetched_pages_loop:
  "fetched_pages url w pages w' \<Longrightarrow>
     get_paginated_loop url items w
       = Some (Inr (items @ concat (map (\<lambda>p. page_items (snd p)) pages)), w')"
proof (induction arbitrary: items rule: fetched_pages.induct)
  case (no_more url w)
  then show ?case by (simp add: get_paginated_loop_stop)
next
  case (next_page url w resp w1 data pages w')
  from next_page.hyps(2-4) have "fetch_page (the url) w = Some (Inr (resp, data), w1)"
    by (simp add: fetch_page_Inr_iff)
  from get_paginated_loop_page [OF next_page.hyps(1) this]
    next_page.IH [of "items @ page_items data"]
  show ?case by simp
qed

lemma loop_fetched_pages:
  assumes "get_paginated_loop url items w = Some y"
  shows "\<forall>out. fst y = Inr out \<longrightarrow>
           (\<exists>pages. fetched_pages url w pages (snd y)
              \<and> out = items @ concat (map (\<lambda>p. page_items (snd p)) pages))"
  using assms
proof (induction rule: get_paginated_loop_run)
  case (stop url items w)
  then have "fetched_pages url w [] w" by (rule fetched_pages.no_more)
  then show ?case by force
next
  case (fail url items w e w1)
  then show ?case by simp
next
  case (page url items w resp data w1 y)
  show ?case
  proof (intro allI impI)
    fix out
    assume "fst y = Inr out"
    with page.IH obtain pages where
      p: "fetched_pages (next_url resp) w1 pages (snd y)"
      and out: "out = (items @ page_items data) @ concat (map (\<lambda>p. page_items (snd p)) pages)"
      by blast
    from page.hyps(2) have "get (the url) w = Some (Inr resp, w1)" "status_code resp = 200"
      "json_body resp = Some data" by (simp_all add: fetch_page_Inr_iff)
    from fetched_pages.next_page [OF page.hyps(1) this p]
    have "fetched_pages url w ((resp, data) # pages) (snd y)" .
    moreover from out
    have "out = items @ concat (map (\<lambda>p. page_items (snd p)) ((resp, data) # pages))" by simp
    ultimately show "\<exists>pages. fetched_pages url w pages (snd y)
              \<and> out = items @ concat (map (\<lambda>p. page_items (snd p)) pages)" by blast
  qed
qed

lemma fetched_pages_continue:
  "fetched_pages url w pages w' \<Longrightarrow> i < length pages \<Longrightarrow>
     str_truthy (next_url (fst (pages ! i))) \<longleftrightarrow> Suc i < length pages"
proof (induction arbitrary: i rule: fetched_pages.induct)
  case (no_more url w)
  then show ?case by simp
next
  case (next_page url w resp w1 data pages w')
  show ?case
  proof (cases i)
    case 0
    from next_page.hyps(5) have "str_truthy (next_url resp) \<longleftrightarrow> pages \<noteq> []"
      by (cases rule: fetched_pages.cases) auto
    with 0 show ?thesis by auto
  next
    case (Suc j)
    with next_page.prems have "j < length pages" by simp
    from next_page.IH [OF this] Suc show ?thesis by simp
  qed
qed

lemma header_get_Link: "header_get hs ''Link'' = header_get hs ''link''"
  by (simp add: header_get_def lower_def lower_char_def)

lemma find_next_find: "find_next parts = map_option bracketed (find (contains rel_next) parts)"
  by (induction parts) (simp_all add: bracketed_def)

lemma next_url_link_header:
  "next_url resp =
     (case link_header resp of
        None \<Rightarrow> None
      | Some l \<Rightarrow> if l = [] then None else map_option bracketed (next_part l))"
  by (simp add: next_url_def link_header_def next_part_def find_next_find Let_def
      split: option.splits)

lemma str_truthy_next_url:
  "str_truthy (next_url resp) \<longleftrightarrow>
     (\<exists>l part. link_header resp = Some l \<and> next_part l = Some part \<and> bracketed part \<noteq> [])"
proof -
  have "next_part [] = None" by (simp add: next_part_def rel_next_def)
  then show ?thesis
    by (auto simp: next_url_link_header str_truthy_def split: option.splits)
qed


section \<open>Facts about the cross-reference collector\<close>

lemma link_user_id_value:
  assumes "link_user_id item = Inr v"
  shows "v = JNull \<or> (\<exists>s. v = JStr s)"
  using assms
  by (auto simp: link_user_id_def ebind_eq_Inr after_users_def split: if_splits json.splits)

lemma self_user_id_value:
  assumes "self_user_id item cur = Inr v"
  shows "v = cur \<or> (\<exists>s. v = JStr s \<and> prefix ''00u'' s \<and> py_get item ''id'' JNull = Inr (JStr s))"
proof (cases "py_get item ''id'' JNull")
  case (Inl e)
  with assms show ?thesis by (simp add: self_user_id_def)
next
  case (Inr maybe)
  show ?thesis
  proof (cases maybe)
    case (JStr s)
    with Inr assms show ?thesis
      by (cases "prefix ''00u'' s") (auto simp: self_user_id_def)
  qed (use Inr assms in \<open>auto simp: self_user_id_def\<close>)
qed

lemma prefix_00u_nonempty: "prefix ''00u'' s \<Longrightarrow> s \<noteq> []"
  by auto

lemma resolve_user_id_value:
  assumes "resolve_user_id item = Inr v" and "truthy v"
  shows "nonempty_string v \<or> embedded_user_id item = Inr v"
proof -
  from assms(1) obtain id1 id2 where
    l: "link_user_id item = Inr id1"
    and e: "(if \<not> truthy id1 then embedded_user_id item else Inr id1) = Inr id2"
    and s: "(if \<not> truthy id2 then self_user_id item id2 else Inr id2) = Inr v"
    unfolding resolve_user_id_def by (auto simp: ebind_eq_Inr)
  show ?thesis
  proof (cases "truthy id1")
    case True
    with e s have "v = id1" by (auto split: if_splits)
    with True link_user_id_value [OF l] show ?thesis by (auto simp: nonempty_string_def)
  next
    case False
    with e have emb: "embedded_user_id item = Inr id2" by simp
    show ?thesis
    proof (cases "truthy id2")
      case True
      with s emb show ?thesis by simp
    next
      case f: False
      with s have "self_user_id item id2 = Inr v" by simp
      from self_user_id_value [OF this] f assms(2) obtain t where "v = JStr t" "prefix ''00u'' t"
        by auto
      then show ?thesis by (auto simp: nonempty_string_def)
    qed
  qed
qed

lemma set_add_elems:
  assumes "set_add s x = Inr s'"
  shows "hashable x \<and> set s' \<subseteq> insert x (set s)"
  using assms by (auto simp: set_add_def split: if_splits)

lemma add_item_elems:
  assumes "add_item s item = Inr s'" and "x \<in> set s'"
  shows "x \<in> set s \<or> (truthy x \<and> hashable x \<and> resolve_user_id item = Inr x)"
proof -
  from assms(1) obtain v where v: "resolve_user_id item = Inr v"
    and a: "(if truthy v then set_add s v else Inr s) = Inr s'"
    unfolding add_item_def by (auto simp: ebind_eq_Inr)
  show ?thesis
  proof (cases "truthy v")
    case True
    with a have "set_add s v = Inr s'" by simp
    from set_add_elems [OF this] assms(2) True v show ?thesis by auto
  next
    case False
    with a assms(2) show ?thesis by simp
  qed
qed

lemma add_items_elems:
  "add_items s items = Inr s' \<Longrightarrow> x \<in> set s' \<Longrightarrow>
     x \<in> set s \<or> (truthy x \<and> hashable x \<and> (\<exists>item\<in>set items. resolve_user_id item = Inr x))"
proof (induction items arbitrary: s)
  case Nil
  then show ?case by simp
next
  case (Cons item items)
  from Cons.prems(1) obtain s1 where a: "add_item s item = Inr s1"
    and b: "add_items s1 items = Inr s'"
    by (auto simp: ebind_eq_Inr)
  from Cons.IH [OF b Cons.prems(2)] add_item_elems [OF a] show ?case by auto
qed

lemma identifier_ok_mono: "identifier_ok items x \<Longrightarrow> set items \<subseteq> set items' \<Longrightarrow> identifier_ok items' x"
  by (auto simp: identifier_ok_def)

lemma add_items_ok:
  assumes "add_items s items = Inr s'" and "x \<in> set s'"
  shows "x \<in> set s \<or> identifier_ok items x"
  using add_items_elems [OF assms] resolve_user_id_value
  by (auto simp: identifier_ok_def)

lemma fetch_page_history:
  assumes "fetch_page u w = Some (Inr (resp, data), w1)"
  shows "\<exists>h0. history w1 = history w @ h0 @ [(u, resp)] \<and> json_body resp = Some data"
proof -
  from assms have g: "get u w = Some (Inr resp, w1)" and d: "json_body resp = Some data"
    by (simp_all add: fetch_page_Inr_iff)
  from get_effect [OF g] d show ?thesis by (auto simp: get_post_def)
qed

lemma collect_loop_identifiers:
  assumes "collect_loop url user_ids w = Some y"
  shows "\<forall>ids. fst y = Inr ids \<longrightarrow>
           (\<exists>h. history (snd y) = history w @ h
              \<and> (\<forall>x\<in>set ids. x \<in> set user_ids \<or> identifier_ok (items_of h) x))"
  using assms
proof (induction rule: collect_loop_run)
  case (stop url user_ids w)
  then show ?case by simp
next
  case (fail url user_ids w e w1)
  then show ?case by simp
next
  case (bad_item url user_ids w resp data w1 e)
  then show ?case by simp
next
  case (page url user_ids w resp data w1 user_ids' y)
  from fetch_page_history [OF page.hyps(2)] obtain h0 where
    h1: "history w1 = history w @ h0 @ [(the url, resp)]" and d: "json_body resp = Some data"
    by blast
  from page.hyps(3) obtain items where it: "py_iter data = Inr items"
    and add: "add_items user_ids items = Inr user_ids'"
    by (auto simp: ebind_eq_Inr)
  from d it have members: "page_members resp = items" by (simp add: page_members_def)
  show ?case
  proof (intro allI impI)
    fix ids
    assume "fst y = Inr ids"
    with page.IH obtain h2 where h2: "history (snd y) = history w1 @ h2"
      and ok: "\<forall>x\<in>set ids. x \<in> set user_ids' \<or> identifier_ok (items_of h2) x"
      by blast
    let ?h = "(h0 @ [(the url, resp)]) @ h2"
    from h1 h2 have "history (snd y) = history w @ ?h" by simp
    moreover have "x \<in> set user_ids \<or> identifier_ok (items_of ?h) x" if "x \<in> set ids" for x
    proof -
      from ok that consider "x \<in> set user_ids'" | "identifier_ok (items_of h2) x" by blast
      then show ?thesis
      proof cases
        case 1
        from add_items_ok [OF add 1] have "x \<in> set user_ids \<or> identifier_ok items x" .
        moreover have "set items \<subseteq> set (items_of ?h)"
          using members by (auto simp: items_of_def)
        ultimately show ?thesis using identifier_ok_mono by blast
      next
        case 2
        moreover have "set (items_of h2) \<subseteq> set (items_of ?h)"
          by (auto simp: items_of_def)
        ultimately show ?thesis using identifier_ok_mono by blast
      qed
    qed
    ultimately show "\<exists>h. history (snd y) = history w @ h
              \<and> (\<forall>x\<in>set ids. x \<in> set user_ids \<or> identifier_ok (items_of h) x)"
      by blast
  qed
qed

lemma collect_bob_user_ids_ok:
  assumes "collect_bob_user_ids repr cfg bob_app_id w = Some (Inr user_ids, w')"
  shows "\<exists>h. history w' = history w @ h \<and> (\<forall>x\<in>set user_ids. identifier_ok (items_of h) x)"
  using collect_loop_identifiers [OF assms [unfolded collect_bob_user_ids_def], THEN spec, of user_ids]
  by auto

lemma py_key_JNull: "py_key x = JNull \<longleftrightarrow> x = JNull"
  by (cases x) simp_all

lemma set_member_JNull: "set_member JNull s \<longleftrightarrow> JNull \<in> set s"
  unfolding set_member_def image_iff by (simp add: py_key_JNull eq_commute [of JNull])

lemma collect_bob_user_ids_no_None:
  assumes "collect_bob_user_ids repr cfg bob_app_id w = Some (Inr user_ids, w')"
  shows "\<not> set_member JNull user_ids"
proof
  assume "set_member JNull user_ids"
  then have "JNull \<in> set user_ids" by (simp only: set_member_JNull)
  with collect_bob_user_ids_ok [OF assms] have "truthy JNull"
    unfolding identifier_ok_def by blast
  then show False by simp
qed

lemma transform_user_record:
  assumes "user_record user" and "hashable (user_identifier user)"
  shows "\<exists>r. transform_user repr ids user = Inr r"
proof -
  from assms(1) obtain kv where u: "user = JObj kv" by (cases user) (auto simp: user_record_def)
  with assms(1) obtain pkv where
    p: "py_or (dict_get kv ''profile'' (JObj [])) (JObj []) = JObj pkv"
    by (cases "py_or (dict_get kv ''profile'' (JObj [])) (JObj [])")
      (auto simp: user_record_def is_dict_def)
  from u assms(1) obtain ckv where
    c: "py_or (dict_get kv ''credentials'' (JObj [])) (JObj []) = JObj ckv"
    by (cases "py_or (dict_get kv ''credentials'' (JObj [])) (JObj [])")
      (auto simp: user_record_def)
  with u assms(1) obtain prkv where
    pr: "py_or (dict_get ckv ''provider'' (JObj [])) (JObj []) = JObj prkv"
    by (cases "py_or (dict_get ckv ''provider'' (JObj [])) (JObj [])")
      (auto simp: user_record_def is_dict_def)
  from assms(2) u have h: "hashable (dict_get kv ''id'' JNull)" by (simp add: user_identifier_def)
  show ?thesis
    unfolding transform_user_def u
    by (simp add: py_get_def p c pr h py_in_set_def Let_def)
qed

section \<open>Two runs against the same backend\<close>

lemma simulatesD:
  "simulates f \<Longrightarrow> server w1 = server w2 \<Longrightarrow> f w1 = Some (r, w1') \<Longrightarrow>
     \<exists>w2'. f w2 = Some (r, w2') \<and> server w1' = server w2'"
  unfolding simulates_def by blast

lemma simulates_agree:
  assumes "simulates f" and "server w1 = server w2"
  shows "map_option fst (f w1) = map_option fst (f w2)"
proof (cases "f w1")
  case None
  show ?thesis
  proof (cases "f w2")
    case n: None
    with None show ?thesis by simp
  next
    case (Some y)
    obtain r w2' where "y = (r, w2')" by (cases y)
    with Some simulatesD [OF assms(1) assms(2) [symmetric], of r w2'] None show ?thesis
      by auto
  qed
next
  case (Some y)
  obtain r w1' where "y = (r, w1')" by (cases y)
  with Some simulatesD [OF assms, of r w1'] show ?thesis by auto
qed

lemma session_get_server [simp]:
  "server (snd (session_get url w)) = (\<lambda>n. server w (Suc n))"
  by (simp add: session_get_def Let_def split: sum.splits)

lemma get_simulates_aux:
  assumes "get url w = Some y"
  shows "\<forall>w2::world. server w = server w2 \<longrightarrow>
           (\<exists>w2'. get url w2 = Some (fst y, w2') \<and> server (snd y) = server w2')"
  using assms
proof (induction rule: get_induct)
  case (step g url w y)
  show ?case
  proof (intro allI impI)
    fix w2 :: world
    assume s: "server w = server w2"
    show "\<exists>w2'. get url w2 = Some (fst y, w2') \<and> server (snd y) = server w2'"
    proof (cases "server w 0 url")
      case (Inl e)
      with step.hyps have y: "y = (Inl e, snd (session_get url w))"
        by (auto simp: session_get_Inl)
      from Inl s have "server w2 0 url = Inl e" by simp
      from get_error [OF this] y s show ?thesis by simp
    next
      case (Inr resp)
      from Inr s have r2: "server w2 0 url = Inr resp" by simp
      show ?thesis
      proof (cases "status_code resp = 429")
        case False
        with Inr step.hyps have y: "y = (Inr resp, snd (session_get url w))"
          by (auto simp: session_get_Inr)
        from get_return [OF r2 False] y s show ?thesis by simp
      next
        case True
        let ?n = "\<lambda>w. snd (sleep_for_rate_limit resp (snd (session_get url w)))"
        have f: "fst (sleep_for_rate_limit resp (snd (session_get url w2)))
            = fst (sleep_for_rate_limit resp (snd (session_get url w)))"
          by (rule sleep_for_rate_limit_fst)
        from s have n: "server (?n w) = server (?n w2)" by simp
        from sleep_for_rate_limit_429 [OF True, of "snd (session_get url w)"]
        consider "fst (sleep_for_rate_limit resp (snd (session_get url w))) = Inr True"
          | e where "fst (sleep_for_rate_limit resp (snd (session_get url w))) = Inl e" by blast
        then show ?thesis
        proof cases
          case 2
          with True Inr step.hyps have y: "y = (Inl e, ?n w)"
            by (auto simp: session_get_Inr case_prod_beta)
          from 2 f have "fst (sleep_for_rate_limit resp (snd (session_get url w2))) = Inl e"
            by simp
          from get_sleep_error [OF r2 True this] y n show ?thesis by simp
        next
          case 1
          with True Inr step.hyps have "g url (?n w) = Some y"
            by (simp add: session_get_Inr case_prod_beta)
          from step.IH [OF this] have
            "\<forall>w2::world. server (?n w) = server w2 \<longrightarrow>
               (\<exists>w2'. get url w2 = Some (fst y, w2') \<and> server (snd y) = server w2')" .
          with n obtain w2' where "get url (?n w2) = Some (fst y, w2')"
            "server (snd y) = server w2'" by blast
          moreover from 1 f
          have "fst (sleep_for_rate_limit resp (snd (session_get url w2))) = Inr True" by simp
          ultimately show ?thesis using get_retry [OF r2 True] by simp
        qed
      qed
    qed
  qed
qed

lemma get_simulates: "simulates (get url)"
  unfolding simulates_def using get_simulates_aux by force

lemma fetch_page_simulates: "simulates (fetch_page u)"
  unfolding simulates_def
proof (intro allI impI)
  fix w1 w2 :: world and r w1'
  assume a: "server w1 = server w2 \<and> fetch_page u w1 = Some (r, w1')"
  then obtain r0 where g: "get u w1 = Some (r0, w1')"
    by (auto simp: fetch_page_def split: Option.bind_splits sum.splits option.splits if_splits)
  from simulatesD [OF get_simulates _ g, of w2] a obtain w2' where
    g2: "get u w2 = Some (r0, w2')" and s: "server w1' = server w2'" by blast
  from a g g2 have "fetch_page u w2 = Some (r, w2')"
    by (auto simp: fetch_page_def split: sum.splits option.splits if_splits)
  with s show "\<exists>w2'. fetch_page u w2 = Some (r, w2') \<and> server w1' = server w2'" by blast
qed

lemma get_paginated_loop_simulates_aux:
  assumes "get_paginated_loop url items w = Some y"
  shows "\<forall>w2::world. server w = server w2 \<longrightarrow>
           (\<exists>w2'. get_paginated_loop url items w2 = Some (fst y, w2') \<and> server (snd y) = server w2')"
  using assms
proof (induction rule: get_paginated_loop_run)
  case (stop url items w)
  then show ?case by (simp add: get_paginated_loop_stop)
next
  case (fail url items w e w1)
  show ?case
  proof (intro allI impI)
    fix w2 :: world
    assume "server w = server w2"
    from simulatesD [OF fetch_page_simulates this fail(2)] obtain w2' where
      "fetch_page (the url) w2 = Some (Inl e, w2')" "server w1 = server w2'" by blast
    with get_paginated_loop_fail [OF fail(1)]
    show "\<exists>w2'. get_paginated_loop url items w2 = Some (fst (Inl e, w1), w2')
        \<and> server (snd (Inl e, w1)) = server w2'" by simp
  qed
next
  case (page url items w resp data w1 y)
  show ?case
  proof (intro allI impI)
    fix w2 :: world
    assume "server w = server w2"
    from simulatesD [OF fetch_page_simulates this page(2)] obtain w2' where
      f: "fetch_page (the url) w2 = Some (Inr (resp, data), w2')" and s: "server w1 = server w2'"
      by blast
    from page.IH s obtain w2'' where
      "get_paginated_loop (next_url resp) (items @ page_items data) w2' = Some (fst y, w2'')"
      "server (snd y) = server w2''" by blast
    with get_paginated_loop_page [OF page(1) f]
    show "\<exists>w2'. get_paginated_loop url items w2 = Some (fst y, w2') \<and> server (snd y) = server w2'"
      by simp
  qed
qed

lemma get_paginated_simulates: "simulates (get_paginated url)"
  unfolding simulates_def get_paginated_def using get_paginated_loop_simulates_aux by force

lemma collect_loop_simulates_aux:
  assumes "collect_loop url user_ids w = Some y"
  shows "\<forall>w2::world. server w = server w2 \<longrightarrow>
           (\<exists>w2'. collect_loop url user_ids w2 = Some (fst y, w2') \<and> server (snd y) = server w2')"
  using assms
proof (induction rule: collect_loop_run)
  case (stop url user_ids w)
  then show ?case by (simp add: collect_loop_stop)
next
  case (fail url user_ids w e w1)
  show ?case
  proof (intro allI impI)
    fix w2 :: world
    assume "server w = server w2"
    from simulatesD [OF fetch_page_simulates this fail(2)] obtain w2' where
      "fetch_page (the url) w2 = Some (Inl e, w2')" "server w1 = server w2'" by blast
    with collect_loop_fail [OF fail(1)]
    show "\<exists>w2'. collect_loop url user_ids w2 = Some (fst (Inl e, w1), w2')
        \<and> server (snd (Inl e, w1)) = server w2'" by simp
  qed
next
  case (bad_item url user_ids w resp data w1 e)
  show ?case
  proof (intro allI impI)
    fix w2 :: world
    assume "server w = server w2"
    from simulatesD [OF fetch_page_simulates this bad_item(2)] obtain w2' where
      "fetch_page (the url) w2 = Some (Inr (resp, data), w2')" "server w1 = server w2'" by blast
    with collect_loop_bad_item [OF bad_item(1) _ bad_item(3)]
    show "\<exists>w2'. collect_loop url user_ids w2 = Some (fst (Inl e, w1), w2')
        \<and> server (snd (Inl e, w1)) = server w2'" by simp
  qed
next
  case (page url user_ids w resp data w1 user_ids' y)
  show ?case
  proof (intro allI impI)
    fix w2 :: world
    assume "server w = server w2"
    from simulatesD [OF fetch_page_simulates this page(2)] obtain w2' where
      f: "fetch_page (the url) w2 = Some (Inr (resp, data), w2')" and s: "server w1 = server w2'"
      by blast
    from page.IH s obtain w2'' where
      "collect_loop (next_url resp) user_ids' w2' = Some (fst y, w2'')"
      "server (snd y) = server w2''" by blast
    with collect_loop_page [OF page(1) f page(3)]
    show "\<exists>w2'. collect_loop url user_ids w2 = Some (fst y, w2') \<and> server (snd y) = server w2'"
      by simp
  qed
qed

lemma collect_loop_simulates: "simulates (collect_loop url user_ids)"
  unfolding simulates_def using collect_loop_simulates_aux by force

lemma simulates_return: "(\<And>w. server (h w) = server w) \<Longrightarrow> simulates (\<lambda>w. Some (x, h w))"
  unfolding simulates_def by auto

lemma simulates_bind:
  assumes "simulates f" and "\<And>r. simulates (g r)"
  shows "simulates (\<lambda>w. Option.bind (f w) (\<lambda>(r, w1). g r w1))"
  unfolding simulates_def
proof (intro allI impI)
  fix w1 w2 :: world and r w1'
  assume a: "server w1 = server w2 \<and> Option.bind (f w1) (\<lambda>(r, w1). g r w1) = Some (r, w1')"
  then obtain r0 m1 where f1: "f w1 = Some (r0, m1)" and g1: "g r0 m1 = Some (r, w1')"
    by (auto split: Option.bind_splits)
  from simulatesD [OF assms(1) _ f1, of w2] a obtain m2 where
    f2: "f w2 = Some (r0, m2)" and s: "server m1 = server m2" by blast
  from simulatesD [OF assms(2) s g1] obtain w2' where
    "g r0 m2 = Some (r, w2')" "server w1' = server w2'" by blast
  with f2 show "\<exists>w2'. Option.bind (f w2) (\<lambda>(r, w1). g r w1) = Some (r, w2') \<and> server w1' = server w2'"
    by simp
qed

lemma resolve_bob_app_id_simulates: "simulates (resolve_bob_app_id cfg)"
proof (cases "str_truthy (BOB_APP_ID cfg)")
  case True
  then have "resolve_bob_app_id cfg = (\<lambda>w. Some (Inr (JStr (the (BOB_APP_ID cfg))), w))"
    by (intro ext) (simp add: resolve_bob_app_id_def)
  then show ?thesis by (simp add: simulates_return)
next
  case False
  show ?thesis
  proof (cases "str_truthy (BOB_APP_LABEL cfg)")
    case f: False
    with False have "resolve_bob_app_id cfg = (\<lambda>w. Some (Inl (ValueError missing_app_message), w))"
      by (intro ext) (simp add: resolve_bob_app_id_def)
    then show ?thesis by (simp add: simulates_return)
  next
    case True
    let ?label = "the (BOB_APP_LABEL cfg)"
    from True False have "resolve_bob_app_id cfg =
        (\<lambda>w. Option.bind (get_paginated (apps_url cfg ?label) w)
               (\<lambda>(r, w1). (\<lambda>r w1. Some (ebind r (select_app ?label), w1)) r w1))"
      by (intro ext) (simp add: resolve_bob_app_id_def apps_url_def Let_def)
    moreover have "simulates (\<lambda>w. Option.bind (get_paginated (apps_url cfg ?label) w)
               (\<lambda>(r, w1). (\<lambda>r w1. Some (ebind r (select_app ?label), w1)) r w1))"
      by (rule simulates_bind [OF get_paginated_simulates]) (simp add: simulates_return)
    ultimately show ?thesis by simp
  qed
qed

lemma export_server [simp]: "server (export a repr rows w) = server w"
  by (simp add: export_def)

lemma main_simulates: "simulates (main repr cfg)"
proof -
  define G3 where "G3 = (\<lambda>bob_app_id users (r3 :: py_error + json list) w3.
      case r3 of
        Inl e \<Rightarrow> Some (Inl e, w3)
      | Inr bob_user_ids \<Rightarrow>
          (case transform_rows repr bob_user_ids users [] of
             Inl e \<Rightarrow> Some (Inl e, w3)
           | Inr rows \<Rightarrow> Some (Inr rows, export bob_app_id repr rows w3)))"
  define G2 where "G2 = (\<lambda>bob_app_id (r2 :: py_error + json list) w2.
      case r2 of
        Inl e \<Rightarrow> Some (Inl e, w2)
      | Inr users \<Rightarrow>
          Option.bind (collect_bob_user_ids repr cfg bob_app_id w2)
            (\<lambda>(r3, w3). G3 bob_app_id users r3 w3))"
  define G1 where "G1 = (\<lambda>(r1 :: py_error + json) w1.
      case r1 of
        Inl e \<Rightarrow> Some (Inl e, w1)
      | Inr bob_app_id \<Rightarrow>
          Option.bind (collect_okta_users cfg w1) (\<lambda>(r2, w2). G2 bob_app_id r2 w2))"
  have m: "main repr cfg = (\<lambda>w. Option.bind (resolve_bob_app_id cfg w) (\<lambda>(r1, w1). G1 r1 w1))"
    unfolding main_def G1_def G2_def G3_def by (intro ext) simp
  have s3: "simulates (G3 a users r3)" for a users r3
    unfolding G3_def
    by (cases r3; cases "transform_rows repr (projr r3) users []")
      (simp_all add: simulates_return)
  have c: "simulates (collect_bob_user_ids repr cfg a)" for a
    unfolding collect_bob_user_ids_def [abs_def] by (rule collect_loop_simulates)
  have s2: "simulates (G2 a r2)" for a r2
  proof (cases r2)
    case (Inl e)
    then show ?thesis unfolding G2_def by (simp add: simulates_return)
  next
    case (Inr users)
    then have "G2 a r2 = (\<lambda>w2. Option.bind (collect_bob_user_ids repr cfg a w2)
            (\<lambda>(r3, w3). G3 a users r3 w3))"
      unfolding G2_def by simp
    with simulates_bind [OF c s3] show ?thesis by simp
  qed
  have u: "simulates (collect_okta_users cfg)"
    unfolding collect_okta_users_def [abs_def] by (rule get_paginated_simulates)
  have s1: "simulates (G1 r1)" for r1
  proof (cases r1)
    case (Inl e)
    then show ?thesis unfolding G1_def by (simp add: simulates_return)
  next
    case (Inr a)
    then have "G1 r1 = (\<lambda>w1. Option.bind (collect_okta_users cfg w1) (\<lambda>(r2, w2). G2 a r2 w2))"
      unfolding G1_def by simp
    with simulates_bind [OF u s2] show ?thesis by simp
  qed
  from simulates_bind [OF resolve_bob_app_id_simulates s1] m show ?thesis by simp
qed

lemma set_member_cong:
  assumes "\<And>x. set_member x ids = set_member x ids'"
  shows "transform_rows repr ids users rows = transform_rows repr ids' users rows"
proof -
  have p: "py_in_set uid ids = py_in_set uid ids'" for uid
    by (simp add: py_in_set_def assms)
  have "transform_user repr ids user = transform_user repr ids' user" for user
    unfolding transform_user_def p by (rule refl)
  then show ?thesis by (induction users arbitrary: rows) simp_all
qed


section \<open>Reconciliation claims\<close>

text \<open>
  Claim C1. When the program ends with a report, there is one row for every user that the
  User Collector fetched, in the order of the fetch, and the row's Origin is
  \<^verbatim>\<open>Imported (bob)\<close> exactly when the user's identifier (\<^verbatim>\<open>user.get("id")\<close>) is a member of
  the set that the Cross-Reference Collector returned; every other row has Origin
  \<^verbatim>\<open>Manual (OKTA)\<close>. Membership is the one of a Python set, \<open>set_member\<close>.
\<close>

theorem origin_iff_cross_reference_member:
  assumes "main repr cfg w = Some (Inr rows, w')"
  shows "\<exists>bob_app_id w1 users w2 bob_user_ids w3.
           resolve_bob_app_id cfg w = Some (Inr bob_app_id, w1)
         \<and> collect_okta_users cfg w1 = Some (Inr users, w2)
         \<and> collect_bob_user_ids repr cfg bob_app_id w2 = Some (Inr bob_user_ids, w3)
         \<and> length rows = length users
         \<and> (\<forall>i<length users.
               user_id (rows ! i) = user_identifier (users ! i)
             \<and> (origin (rows ! i) = ''Imported (bob)''
                  \<longleftrightarrow> set_member (user_identifier (users ! i)) bob_user_ids)
             \<and> (origin (rows ! i) \<noteq> ''Imported (bob)'' \<longrightarrow> origin (rows ! i) = ''Manual (OKTA)''))"
proof -
  from main_success [OF assms] obtain bob_app_id w1 users w2 bob_user_ids w3 where
    run: "resolve_bob_app_id cfg w = Some (Inr bob_app_id, w1)"
      "collect_okta_users cfg w1 = Some (Inr users, w2)"
      "collect_bob_user_ids repr cfg bob_app_id w2 = Some (Inr bob_user_ids, w3)"
    and rows: "transform_rows repr bob_user_ids users [] = Inr rows"
    by blast
  have "user_id (rows ! i) = user_identifier (users ! i)
      \<and> (origin (rows ! i) = ''Imported (bob)''
           \<longleftrightarrow> set_member (user_identifier (users ! i)) bob_user_ids)
      \<and> (origin (rows ! i) \<noteq> ''Imported (bob)'' \<longrightarrow> origin (rows ! i) = ''Manual (OKTA)'')"
    if "i < length users" for i
    using transform_user_origin [OF transform_rows_nth(2) [OF rows that]] by simp
  with run transform_rows_nth(1) [OF rows] show ?thesis by blast
qed

theorem origin_iff_cross_reference_member_witness:
  "map_option fst (main no_repr demo_config demo_world) = Some (Inr demo_rows)
   \<and> (\<exists>bob_app_id w1 users w2 bob_user_ids w3.
           resolve_bob_app_id demo_config demo_world = Some (Inr bob_app_id, w1)
         \<and> collect_okta_users demo_config w1 = Some (Inr users, w2)
         \<and> collect_bob_user_ids no_repr demo_config bob_app_id w2 = Some (Inr bob_user_ids, w3)
         \<and> length demo_rows = length users
         \<and> (\<forall>i<length users.
               user_id (demo_rows ! i) = user_identifier (users ! i)
             \<and> (origin (demo_rows ! i) = ''Imported (bob)''
                  \<longleftrightarrow> set_member (user_identifier (users ! i)) bob_user_ids)
             \<and> (origin (demo_rows ! i) \<noteq> ''Imported (bob)'' \<longrightarrow> origin (demo_rows ! i) = ''Manual (OKTA)'')))"
  using demo_run origin_iff_cross_reference_member [OF outcomeD [OF demo_run]]
  by (rule conjI)

text \<open>
  Claim C2. In every row of the report the Configuration Status is the one the
  specification describes: \<^verbatim>\<open>Imported (bob)\<close> when the user's identifier is in the
  cross-reference set, and otherwise the status that the provider reports
  (\<open>spec_provider_status\<close>: \<^verbatim>\<open>Manual (OKTA)\<close> for the type \<^verbatim>\<open>OKTA\<close>, \<^verbatim>\<open>Provisioned (name)\<close> for
  \<^verbatim>\<open>FEDERATION\<close> and \<^verbatim>\<open>IMPORT\<close>, else the provider's name, which is \<^verbatim>\<open>UNKNOWN\<close> when absent).
\<close>

theorem configuration_status_as_specified:
  assumes "main repr cfg w = Some (Inr rows, w')"
  shows "\<exists>bob_app_id w1 users w2 bob_user_ids w3.
           resolve_bob_app_id cfg w = Some (Inr bob_app_id, w1)
         \<and> collect_okta_users cfg w1 = Some (Inr users, w2)
         \<and> collect_bob_user_ids repr cfg bob_app_id w2 = Some (Inr bob_user_ids, w3)
         \<and> length rows = length users
         \<and> (\<forall>i<length users.
               okta_configuration_status (rows ! i)
                 = spec_configuration_status repr bob_user_ids (users ! i))"
proof -
  from main_success [OF assms] obtain bob_app_id w1 users w2 bob_user_ids w3 where
    run: "resolve_bob_app_id cfg w = Some (Inr bob_app_id, w1)"
      "collect_okta_users cfg w1 = Some (Inr users, w2)"
      "collect_bob_user_ids repr cfg bob_app_id w2 = Some (Inr bob_user_ids, w3)"
    and rows: "transform_rows repr bob_user_ids users [] = Inr rows"
    by blast
  have "okta_configuration_status (rows ! i)
          = spec_configuration_status repr bob_user_ids (users ! i)"
    if "i < length users" for i
    using transform_user_status [OF transform_rows_nth(2) [OF rows that]] .
  with run transform_rows_nth(1) [OF rows] show ?thesis by blast
qed

theorem configuration_status_as_specified_witness:
  "map_option fst (main no_repr demo_config demo_world) = Some (Inr demo_rows)
   \<and> (\<exists>bob_app_id w1 users w2 bob_user_ids w3.
           resolve_bob_app_id demo_config demo_world = Some (Inr bob_app_id, w1)
         \<and> collect_okta_users demo_config w1 = Some (Inr users, w2)
         \<and> collect_bob_user_ids no_repr demo_config bob_app_id w2 = Some (Inr bob_user_ids, w3)
         \<and> length demo_rows = length users
         \<and> (\<forall>i<length users.
               okta_configuration_status (demo_rows ! i)
                 = spec_configuration_status no_repr bob_user_ids (users ! i)))"
  using demo_run configuration_status_as_specified [OF outcomeD [OF demo_run]]
  by (rule conjI)

section \<open>Cross-reference claims\<close>




section \<open>App resolver claim\<close>




section \<open>Pagination claim\<close>

text \<open>
  Claim C5, as amended. A paginated fetch returns the items \<open>items\<close> exactly when it
  receives a sequence of pages, each with status 200 and a JSON body, each asked for at the
  URL that the page before gave, and \<open>items\<close> is what the pages add in their order: the
  elements of a body that is a list, and the body itself otherwise. After a page the
  traversal goes on exactly when the page gives a continuation URL that is not empty: its
  link header has a part that contains the marker \<^verbatim>\<open>rel="next"\<close>, and the slice taken from
  the first such part, between \<^verbatim>\<open><\<close> and \<^verbatim>\<open>>\<close>, is not the empty string.
\<close>

theorem pagination_accumulates_pages:
  "(get_paginated url w = Some (Inr items, w') \<longleftrightarrow>
      (\<exists>pages. fetched_pages (Some url) w pages w'
         \<and> items = concat (map (\<lambda>p. page_items (snd p)) pages)))
   \<and> page_items (JList xs) = xs
   \<and> ((\<forall>ys. data \<noteq> JList ys) \<longrightarrow> page_items data = [data])
   \<and> (fetched_pages start w0 pages w1 \<and> i < length pages \<longrightarrow>
        (Suc i < length pages \<longleftrightarrow> str_truthy (next_url (fst (pages ! i)))))
   \<and> (str_truthy (next_url resp) \<longleftrightarrow>
        (\<exists>l part. link_header resp = Some l \<and> next_part l = Some part \<and> bracketed part \<noteq> []))"
proof -
  have "get_paginated url w = Some (Inr items, w') \<longleftrightarrow>
      (\<exists>pages. fetched_pages (Some url) w pages w'
         \<and> items = concat (map (\<lambda>p. page_items (snd p)) pages))"
    using loop_fetched_pages [of "Some url" "[]" w "(Inr items, w')"]
      fetched_pages_loop [of "Some url" w _ w' "[]"]
    unfolding get_paginated_def by auto
  moreover have "page_items (JList xs) = xs" by (simp add: page_items_def)
  moreover have "(\<forall>ys. data \<noteq> JList ys) \<longrightarrow> page_items data = [data]"
    by (cases data) (simp_all add: page_items_def)
  ultimately show ?thesis
    using fetched_pages_continue [of start w0 pages w1 i] str_truthy_next_url [of resp]
    by blast
qed


theorem pagination_accumulates_pages_witness:
  "map_option fst (get_paginated ''https://d/p1'' paged_world)
     = Some (Inr [JNum 1, JNum 2, JObj [(''a'', JNum 3)]])
   \<and> (\<exists>pages.
         fetched_pages (Some ''https://d/p1'') paged_world pages
           (snd (the (get_paginated ''https://d/p1'' paged_world)))
       \<and> [JNum 1, JNum 2, JObj [(''a'', JNum 3)]] = concat (map (\<lambda>p. page_items (snd p)) pages))"
proof -
  have a: "map_option fst (get_paginated ''https://d/p1'' paged_world)
     = Some (Inr [JNum 1, JNum 2, JObj [(''a'', JNum 3)]])"
    by code_simp
  from pagination_accumulates_pages [of "''https://d/p1''" paged_world
      "[JNum 1, JNum 2, JObj [(''a'', JNum 3)]]"
      "snd (the (get_paginated ''https://d/p1'' paged_world))"]
    outcomeD [OF a]
  have "\<exists>pages.
         fetched_pages (Some ''https://d/p1'') paged_world pages
           (snd (the (get_paginated ''https://d/p1'' paged_world)))
       \<and> [JNum 1, JNum 2, JObj [(''a'', JNum 3)]] = concat (map (\<lambda>p. page_items (snd p)) pages)"
    by blast
  with a show ?thesis by blast
qed

text \<open>
  The claim as it stands fails on the link header \<^verbatim>\<open><>; rel="next"\<close>: it has a part
  marked with the relation, and the traversal halts after this page, with one request made.
\<close>

theorem pagination_halts_on_empty_next_counterexample:
  "link_header (ok_response (JList [JNum 1]) (Some (next_link []))) = Some (next_link [])
   \<and> next_part (next_link []) = Some (next_link [])
   \<and> contains rel_next (next_link [])
   \<and> map_option (\<lambda>y. (fst y, map fst (history (snd y))))
         (get_paginated ''https://d/p1'' empty_next_world)
       = Some (Inr [JNum 1], [''https://d/p1''])"
  by code_simp

section \<open>HTTP client claims\<close>



section \<open>Error handling claim\<close>



section \<open>Determinism claim\<close>

text \<open>
  Claim C8. Two runs that meet the same backend, that is the same responses to the
  requests to come, end alike: both with the same rows in the same order, written to the
  report, or both with the same exception, or neither ends. The clock, the sleeps and
  what was written or printed before have no part in it. The rows are a function of the
  users fetched and of the membership in the cross-reference set alone.
\<close>

theorem identical_backend_identical_rows:
  assumes "server w1 = server w2"
  shows "map_option fst (main repr cfg w1) = map_option fst (main repr cfg w2)
       \<and> (\<forall>rows w1'. main repr cfg w1 = Some (Inr rows, w1') \<longrightarrow>
            report w1' = Some rows
          \<and> (\<exists>w2'. main repr cfg w2 = Some (Inr rows, w2') \<and> report w2' = Some rows))
       \<and> ((\<forall>x. set_member x ids = set_member x ids') \<longrightarrow>
            transform_rows repr ids users [] = transform_rows repr ids' users [])"
proof -
  have "report w1' = Some rows \<and> (\<exists>w2'. main repr cfg w2 = Some (Inr rows, w2') \<and> report w2' = Some rows)"
    if m: "main repr cfg w1 = Some (Inr rows, w1')" for rows w1'
  proof -
    from simulatesD [OF main_simulates assms m] obtain w2' where
      m2: "main repr cfg w2 = Some (Inr rows, w2')" by blast
    from main_post [OF m] main_post [OF m2] m2 show ?thesis by auto
  qed
  moreover have "transform_rows repr ids users [] = transform_rows repr ids' users []"
    if "\<forall>x. set_member x ids = set_member x ids'"
    using set_member_cong [of ids ids'] that by simp
  ultimately show ?thesis using simulates_agree [OF main_simulates assms] by blast
qed


theorem identical_backend_identical_rows_witness:
  "server busy_world = server later_world
   \<and> clock busy_world 0 \<noteq> clock later_world 0
   \<and> map_option fst (main no_repr demo_config busy_world) = Some (Inr demo_rows)
   \<and> map_option fst (main no_repr demo_config later_world) = Some (Inr demo_rows)
   \<and> map_option (\<lambda>y. slept (snd y)) (main no_repr demo_config busy_world) = Some [6]
   \<and> map_option (\<lambda>y. slept (snd y)) (main no_repr demo_config later_world) = Some [2, 6, 2]"
proof -
  have a: "server busy_world = server later_world" by (simp add: later_world_def)
  have b: "clock busy_world 0 \<noteq> clock later_world 0"
    by (simp add: later_world_def busy_world_def scripted_world_def)
  have c: "map_option fst (main no_repr demo_config busy_world) = Some (Inr demo_rows)"
    by code_simp
  have d: "map_option (\<lambda>y. slept (snd y)) (main no_repr demo_config busy_world) = Some [6]"
    "map_option (\<lambda>y. slept (snd y)) (main no_repr demo_config later_world) = Some [2, 6, 2]"
    by code_simp+
  from identical_backend_identical_rows [OF a, of no_repr demo_config] c
  have "map_option fst (main no_repr demo_config later_world) = Some (Inr demo_rows)"
    by simp
  with a b c d show ?thesis by (intro conjI)
qed

text \<open>
  Claim C9. The set that the collector returns never holds \<^verbatim>\<open>None\<close>. So in a run that ends
  with a report, where there is one row for every user, the row of a user without an id
  has the id \<^verbatim>\<open>None\<close> and the Origin \<^verbatim>\<open>Manual (OKTA)\<close>; and for a user record without an id
  the row is produced: the missing id raises nothing.
\<close>

theorem missing_id_is_manual:
  "(main repr cfg w = Some (Inr rows, w') \<longrightarrow>
      (\<exists>bob_app_id w1 users w2 bob_user_ids w3.
           resolve_bob_app_id cfg w = Some (Inr bob_app_id, w1)
         \<and> collect_okta_users cfg w1 = Some (Inr users, w2)
         \<and> collect_bob_user_ids repr cfg bob_app_id w2 = Some (Inr bob_user_ids, w3)
         \<and> length rows = length users
         \<and> \<not> set_member JNull bob_user_ids
         \<and> (\<forall>i<length users. user_identifier (users ! i) = JNull \<longrightarrow>
               user_id (rows ! i) = JNull \<and> origin (rows ! i) = ''Manual (OKTA)'')))
   \<and> (collect_bob_user_ids repr cfg app w0 = Some (Inr ids, w0') \<and> user_record user
       \<and> user_identifier user = JNull \<longrightarrow>
      (\<exists>r. transform_user repr ids user = Inr r \<and> user_id r = JNull
          \<and> origin r = ''Manual (OKTA)''))"
proof -
  have 1: "\<exists>bob_app_id w1 users w2 bob_user_ids w3.
           resolve_bob_app_id cfg w = Some (Inr bob_app_id, w1)
         \<and> collect_okta_users cfg w1 = Some (Inr users, w2)
         \<and> collect_bob_user_ids repr cfg bob_app_id w2 = Some (Inr bob_user_ids, w3)
         \<and> length rows = length users
         \<and> \<not> set_member JNull bob_user_ids
         \<and> (\<forall>i<length users. user_identifier (users ! i) = JNull \<longrightarrow>
               user_id (rows ! i) = JNull \<and> origin (rows ! i) = ''Manual (OKTA)'')"
    if m: "main repr cfg w = Some (Inr rows, w')"
  proof -
    from main_success [OF m] obtain bob_app_id w1 users w2 bob_user_ids w3 where
      run: "resolve_bob_app_id cfg w = Some (Inr bob_app_id, w1)"
        "collect_okta_users cfg w1 = Some (Inr users, w2)"
        "collect_bob_user_ids repr cfg bob_app_id w2 = Some (Inr bob_user_ids, w3)"
      and rows: "transform_rows repr bob_user_ids users [] = Inr rows"
      by blast
    note none = collect_bob_user_ids_no_None [OF run(3)]
    have "user_id (rows ! i) = JNull \<and> origin (rows ! i) = ''Manual (OKTA)''"
      if "i < length users" "user_identifier (users ! i) = JNull" for i
      using transform_user_origin [OF transform_rows_nth(2) [OF rows that(1)]] that(2) none
      by simp
    with run none transform_rows_nth(1) [OF rows] show ?thesis by blast
  qed
  have 2: "\<exists>r. transform_user repr ids user = Inr r \<and> user_id r = JNull
          \<and> origin r = ''Manual (OKTA)''"
    if c: "collect_bob_user_ids repr cfg app w0 = Some (Inr ids, w0')"
      and u: "user_record user" and n: "user_identifier user = JNull"
  proof -
    from n have "hashable (user_identifier user)" by simp
    from transform_user_record [OF u this] obtain r where r: "transform_user repr ids user = Inr r"
      by blast
    from transform_user_origin [OF r] n collect_bob_user_ids_no_None [OF c]
    have "user_id r = JNull \<and> origin r = ''Manual (OKTA)''" by simp
    with r show ?thesis by blast
  qed
  show ?thesis
  proof (intro conjI impI)
    assume "main repr cfg w = Some (Inr rows, w')"
    then show "\<exists>bob_app_id w1 users w2 bob_user_ids w3.
           resolve_bob_app_id cfg w = Some (Inr bob_app_id, w1)
         \<and> collect_okta_users cfg w1 = Some (Inr users, w2)
         \<and> collect_bob_user_ids repr cfg bob_app_id w2 = Some (Inr bob_user_ids, w3)
         \<and> length rows = length users
         \<and> \<not> set_member JNull bob_user_ids
         \<and> (\<forall>i<length users. user_identifier (users ! i) = JNull \<longrightarrow>
               user_id (rows ! i) = JNull \<and> origin (rows ! i) = ''Manual (OKTA)'')"
      by (rule 1)
  next
    assume a: "collect_bob_user_ids repr cfg app w0 = Some (Inr ids, w0') \<and> user_record user
       \<and> user_identifier user = JNull"
    show "\<exists>r. transform_user repr ids user = Inr r \<and> user_id r = JNull
          \<and> origin r = ''Manual (OKTA)''"
      by (rule 2) (use a in simp_all)
  qed
qed

theorem missing_id_is_manual_witness:
  "map_option fst (main no_repr demo_config demo_world) = Some (Inr demo_rows)
   \<and> map_option fst (collect_bob_user_ids no_repr demo_config (JStr ''0oa1'') links_world)
       = Some (Inr [JStr ''00u456''])
   \<and> user_record (demo_users ! 2)
   \<and> user_identifier (demo_users ! 2) = JNull
   \<and> (\<exists>r. transform_user no_repr [JStr ''00u456''] (demo_users ! 2) = Inr r \<and> user_id r = JNull
          \<and> origin r = ''Manual (OKTA)'')
   \<and> (\<exists>bob_app_id w1 users w2 bob_user_ids w3.
           resolve_bob_app_id demo_config demo_world = Some (Inr bob_app_id, w1)
         \<and> collect_okta_users demo_config w1 = Some (Inr users, w2)
         \<and> collect_bob_user_ids no_repr demo_config bob_app_id w2 = Some (Inr bob_user_ids, w3)
         \<and> length demo_rows = length users
         \<and> \<not> set_member JNull bob_user_ids
         \<and> (\<forall>i<length users. user_identifier (users ! i) = JNull \<longrightarrow>
               user_id (demo_rows ! i) = JNull \<and> origin (demo_rows ! i) = ''Manual (OKTA)''))"
proof -
  have a: "map_option fst (collect_bob_user_ids no_repr demo_config (JStr ''0oa1'') links_world)
       = Some (Inr [JStr ''00u456''])"
    by code_simp
  have b: "user_record (demo_users ! 2)" by code_simp
  have c: "user_identifier (demo_users ! 2) = JNull" by code_simp
  note t = missing_id_is_manual [of no_repr demo_config demo_world demo_rows
      "snd (the (main no_repr demo_config demo_world))" "JStr ''0oa1''" links_world
      "[JStr ''00u456'']"
      "snd (the (collect_bob_user_ids no_repr demo_config (JStr ''0oa1'') links_world))"
      "demo_users ! 2"]
  from t outcomeD [OF a] b c
  have 1: "\<exists>r. transform_user no_repr [JStr ''00u456''] (demo_users ! 2) = Inr r \<and> user_id r = JNull
          \<and> origin r = ''Manual (OKTA)''"
    by blast
  from t outcomeD [OF demo_run]
  have 2: "\<exists>bob_app_id w1 users w2 bob_user_ids w3.
           resolve_bob_app_id demo_config demo_world = Some (Inr bob_app_id, w1)
         \<and> collect_okta_users demo_config w1 = Some (Inr users, w2)
         \<and> collect_bob_user_ids no_repr demo_config bob_app_id w2 = Some (Inr bob_user_ids, w3)
         \<and> length demo_rows = length users
         \<and> \<not> set_member JNull bob_user_ids
         \<and> (\<forall>i<length users. user_identifier (users ! i) = JNull \<longrightarrow>
               user_id (demo_rows ! i) = JNull \<and> origin (demo_rows ! i) = ''Manual (OKTA)'')"
    by blast
  from demo_run a b c 1 2 show ?thesis by (intro conjI)
qed

text \<open>
  Claim C10, as amended. Every element of the set that the collector returns is truthy and
  hashable, so it is neither \<^verbatim>\<open>None\<close> nor the empty string, and it is a non-empty string
  unless it is the id of the embedded user of a membership item received during the call,
  which is added whatever its type. A resolution that yields no truthy value, the empty
  string among them, adds nothing; the own-identifier strategy changes \<^verbatim>\<open>user_id\<close> only to
  the item's own id, and only when that id is a string that starts with \<^verbatim>\<open>00u\<close>.
\<close>

theorem cross_reference_identifiers:
  "(collect_bob_user_ids repr cfg bob_app_id w = Some (Inr user_ids, w') \<longrightarrow>
      (\<exists>h. history w' = history w @ h
         \<and> (\<forall>x\<in>set user_ids. truthy x \<and> hashable x
              \<and> (nonempty_string x
                 \<or> (\<exists>item\<in>set (items_of h). embedded_user_id item = Inr x)))))
   \<and> (resolve_user_id item = Inr v \<and> \<not> truthy v \<longrightarrow> add_item s item = Inr s)
   \<and> (self_user_id item cur = Inr v \<longrightarrow>
        v = cur \<or> (\<exists>t. v = JStr t \<and> prefix ''00u'' t \<and> py_get item ''id'' JNull = Inr (JStr t)))"
proof -
  have "\<exists>h. history w' = history w @ h
         \<and> (\<forall>x\<in>set user_ids. truthy x \<and> hashable x
              \<and> (nonempty_string x
                 \<or> (\<exists>item\<in>set (items_of h). embedded_user_id item = Inr x)))"
    if "collect_bob_user_ids repr cfg bob_app_id w = Some (Inr user_ids, w')"
    using collect_bob_user_ids_ok [OF that] unfolding identifier_ok_def .
  moreover have "add_item s item = Inr s" if "resolve_user_id item = Inr v" "\<not> truthy v"
    using that by (simp add: add_item_def)
  ultimately show ?thesis using self_user_id_value [of item cur v] by blast
qed

theorem cross_reference_identifiers_witness:
  "map_option fst (collect_bob_user_ids no_repr demo_config (JStr ''0oa1'') links_world)
     = Some (Inr [JStr ''00u456''])
   \<and> (\<exists>h. history (snd (the (collect_bob_user_ids no_repr demo_config (JStr ''0oa1'') links_world)))
            = history links_world @ h
         \<and> (\<forall>x\<in>set [JStr ''00u456'']. truthy x \<and> hashable x
              \<and> (nonempty_string x
                 \<or> (\<exists>item\<in>set (items_of h). embedded_user_id item = Inr x))))"
proof -
  have a: "map_option fst (collect_bob_user_ids no_repr demo_config (JStr ''0oa1'') links_world)
     = Some (Inr [JStr ''00u456''])"
    by code_simp
  from cross_reference_identifiers [of no_repr demo_config "JStr ''0oa1''" links_world
      "[JStr ''00u456'']"
      "snd (the (collect_bob_user_ids no_repr demo_config (JStr ''0oa1'') links_world))"]
    outcomeD [OF a]
  have "\<exists>h. history (snd (the (collect_bob_user_ids no_repr demo_config (JStr ''0oa1'') links_world)))
            = history links_world @ h
         \<and> (\<forall>x\<in>set [JStr ''00u456'']. truthy x \<and> hashable x
              \<and> (nonempty_string x
                 \<or> (\<exists>item\<in>set (items_of h). embedded_user_id item = Inr x)))"
    by blast
  with a show ?thesis by (rule conjI)
qed

text \<open>
  The claim as it stands fails on a membership item whose embedded user has a number as
  its id: the number is added to the set.
\<close>

theorem cross_reference_identifiers_counterexample:
  "map_option fst (collect_bob_user_ids no_repr demo_config (JStr ''0oa1'') numeric_world)
     = Some (Inr [JNum 7])
   \<and> embedded_user_id (JObj [embedded_field (JNum 7)]) = Inr (JNum 7)
   \<and> \<not> nonempty_string (JNum 7)"
  by code_simp

end
